theory Spec2Isabelle
  imports Main "HOL-Library.Sublist" "HOL-Library.AList"
begin

section \<open>State store (lib/state.ts)\<close>

text \<open>
  \<^verbatim>\<open>StateManager\<close> keeps a \<^verbatim>\<open>Map<string, PruningMetadata>\<close>. Its methods are
  \<^verbatim>\<open>async\<close> but contain no \<^verbatim>\<open>await\<close>, so each one runs to completion as one step;
  the model passes the map explicitly and returns the updated map.
\<close>

record PruningMetadata =
  prunedIds :: "string list"
  lastPruneCount :: int

type_synonym StateManager = "string \<rightharpoonup> PruningMetadata"

definition StateManager_get :: "StateManager \<Rightarrow> string \<Rightarrow> string list" where
  "StateManager_get st sessionID =
     (case st sessionID of None \<Rightarrow> [] | Some m \<Rightarrow> prunedIds m)"

definition StateManager_set :: "StateManager \<Rightarrow> string \<Rightarrow> string list \<Rightarrow> StateManager" where
  "StateManager_set st sessionID ids =
     (let previousCount = (case st sessionID of None \<Rightarrow> 0 | Some m \<Rightarrow> int (length (prunedIds m)));
          newCount = int (length ids) - previousCount
      in st(sessionID \<mapsto> \<lparr>prunedIds = ids, lastPruneCount = newCount\<rparr>))"

definition StateManager_getLastPruneCount :: "StateManager \<Rightarrow> string \<Rightarrow> int" where
  "StateManager_getLastPruneCount st sessionID =
     (case st sessionID of None \<Rightarrow> 0 | Some m \<Rightarrow> lastPruneCount m)"

definition StateManager_resetLastPruneCount :: "StateManager \<Rightarrow> string \<Rightarrow> StateManager" where
  "StateManager_resetLastPruneCount st sessionID =
     (case st sessionID of None \<Rightarrow> st | Some m \<Rightarrow> st(sessionID \<mapsto> m\<lparr>lastPruneCount := 0\<rparr>))"

definition StateManager_clear :: "StateManager \<Rightarrow> string \<Rightarrow> StateManager" where
  "StateManager_clear st sessionID = st(sessionID := None)"

text \<open>A client of the store issues a sequence of method calls; the reads leave the map as it is.\<close>

datatype StoreOp =
    OpGet string
  | OpSet string "string list"
  | OpGetLastPruneCount string
  | OpResetLastPruneCount string
  | OpClear string

fun apply_op :: "StateManager \<Rightarrow> StoreOp \<Rightarrow> StateManager" where
  "apply_op st (OpGet s) = st"
| "apply_op st (OpSet s ids) = StateManager_set st s ids"
| "apply_op st (OpGetLastPruneCount s) = st"
| "apply_op st (OpResetLastPruneCount s) = StateManager_resetLastPruneCount st s"
| "apply_op st (OpClear s) = StateManager_clear st s"

fun run_ops :: "StateManager \<Rightarrow> StoreOp list \<Rightarrow> StateManager" where
  "run_ops st [] = st"
| "run_ops st (op # ops) = run_ops (apply_op st op) ops"

fun is_teardown :: "StoreOp \<Rightarrow> bool" where
  "is_teardown (OpClear s) = True"
| "is_teardown _ = False"

text \<open>
  A sequence of calls in which every \<^verbatim>\<open>set\<close> passes a list that contains the identifiers
  stored for that session at the moment of the call (what a caller that merges before
  writing does).
\<close>

fun superset_writes :: "StateManager \<Rightarrow> StoreOp list \<Rightarrow> bool" where
  "superset_writes st [] = True"
| "superset_writes st (OpSet s ids # ops) =
     (set (StateManager_get st s) \<subseteq> set ids \<and> superset_writes (StateManager_set st s ids) ops)"
| "superset_writes st (op # ops) = superset_writes (apply_op st op) ops"

section \<open>JavaScript values\<close>

text \<open>
  Request bodies, tool inputs and wire messages are typed \<^verbatim>\<open>any\<close> in the source. They are
  modelled as JSON-like values; an object is the list of its own properties in
  enumeration order (keys distinct in a value built by the runtime). Numbers are
  integers here: no operation of this development computes with them.
\<close>

datatype json =
    JUndefined
  | JNull
  | JBool bool
  | JNum int
  | JStr string
  | JArr "json list"
  | JObj "(string \<times> json) list"

datatype exn = TypeError | FetchError | OracleError | SchemaError | ToastError

text \<open>Truthiness (\<^verbatim>\<open>if (x)\<close>, \<^verbatim>\<open>x && y\<close>, \<^verbatim>\<open>!x\<close>).\<close>

fun truthy :: "json \<Rightarrow> bool" where
  "truthy JUndefined = False"
| "truthy JNull = False"
| "truthy (JBool b) = b"
| "truthy (JNum n) = (n \<noteq> 0)"
| "truthy (JStr s) = (s \<noteq> [])"
| "truthy (JArr xs) = True"
| "truthy (JObj kvs) = True"

definition obj_get :: "(string \<times> json) list \<Rightarrow> string \<Rightarrow> json" where
  "obj_get kvs k = (case map_of kvs k of None \<Rightarrow> JUndefined | Some v \<Rightarrow> v)"

text \<open>
  \<^verbatim>\<open>x.k\<close> for the property names read by the source (none of them is a built-in
  property of strings, numbers, booleans or arrays): a TypeError on \<^verbatim>\<open>undefined\<close> and
  \<^verbatim>\<open>null\<close>, the own property of an object, \<^verbatim>\<open>undefined\<close> otherwise.
\<close>

fun get_prop :: "json \<Rightarrow> string \<Rightarrow> exn + json" where
  "get_prop JUndefined k = Inl TypeError"
| "get_prop JNull k = Inl TypeError"
| "get_prop (JObj kvs) k = Inr (obj_get kvs k)"
| "get_prop _ k = Inr JUndefined"

text \<open>\<^verbatim>\<open>x?.k\<close>: \<^verbatim>\<open>undefined\<close> where \<^verbatim>\<open>x.k\<close> would raise.\<close>

fun opt_prop :: "json \<Rightarrow> string \<Rightarrow> json" where
  "opt_prop (JObj kvs) k = obj_get kvs k"
| "opt_prop _ k = JUndefined"

text \<open>
  \<^verbatim>\<open>x.k = v\<close> on an object: an existing property keeps its place, a new one goes last.
  The source assigns only after it has read a defined value of \<^verbatim>\<open>x.k\<close>, so \<^verbatim>\<open>x\<close> is an
  object at every assignment; other values are returned as they are.
\<close>

fun set_prop :: "json \<Rightarrow> string \<Rightarrow> json \<Rightarrow> json" where
  "set_prop (JObj kvs) k v = JObj (AList.update k v kvs)"
| "set_prop x k v = x"

text \<open>The own property names of an object, in order.\<close>

fun obj_keys :: "json \<Rightarrow> string list" where
  "obj_keys (JObj kvs) = map fst kvs"
| "obj_keys _ = []"

fun is_string :: "json \<Rightarrow> bool" where
  "is_string (JStr s) = True"
| "is_string _ = False"

fun is_array :: "json \<Rightarrow> bool" where
  "is_array (JArr xs) = True"
| "is_array _ = False"

section \<open>Host messages (lib/state/types.ts and the SDK's parts)\<close>

datatype ToolStatus = Pending | Running | Completed | Error

text \<open>
  A tool part's state: the status, the structured input, the output (present on a
  completed call) and the remaining fields (title, metadata, time, error text).
\<close>

record ToolState =
  status :: ToolStatus
  input :: json
  output_text :: "string option"
  state_rest :: "(string \<times> json) list"

record ToolPart =
  callID :: string
  tool :: string
  state :: ToolState
  part_rest :: "(string \<times> json) list"

text \<open>A part is a tool part (\<^verbatim>\<open>type === "tool"\<close>) or a part of another type with its payload.\<close>

datatype Part = Tool ToolPart | NonTool string json

record WithParts =
  info :: json
  parts :: "Part list"

section \<open>Structural mutator (prune, pruneMessages)\<close>

definition PRUNED_TOOL_INPUT_REPLACEMENT :: string where
  "PRUNED_TOOL_INPUT_REPLACEMENT =
     ''[content removed to save context, this is not what was written to the file, but a placeholder]''"

definition PRUNED_TOOL_OUTPUT_REPLACEMENT :: string where
  "PRUNED_TOOL_OUTPUT_REPLACEMENT =
     ''[Output removed to save context - information superseded or no longer needed]''"

definition PRUNED_TOOL_ERROR_INPUT_REPLACEMENT :: string where
  "PRUNED_TOOL_ERROR_INPUT_REPLACEMENT = ''[input removed due to failed tool call]''"

text \<open>
  The session state as the mutator reads it: \<^verbatim>\<open>state.prune.toolIds\<close>, and whatever
  \<^verbatim>\<open>isMessageCompacted\<close> inspects. That predicate is imported from lib/shared-utils and
  is a parameter of \<^verbatim>\<open>pruneMessages\<close> here.
\<close>

record SessionState =
  toolIds :: "string list"
  compaction :: json

text \<open>Lines 36 to 40: the output of a completed call of a tool other than write and edit.\<close>

definition pruneOutput :: "ToolPart \<Rightarrow> ToolPart" where
  "pruneOutput p =
     (if tool p \<noteq> ''write'' \<and> tool p \<noteq> ''edit'' then
        (if status (state p) = Completed
         then p\<lparr>state := (state p)\<lparr>output_text := Some PRUNED_TOOL_OUTPUT_REPLACEMENT\<rparr>\<rparr>
         else p)
      else p)"

definition replace_if_defined :: "string \<Rightarrow> json \<Rightarrow> json" where
  "replace_if_defined k inp =
     (if opt_prop inp k \<noteq> JUndefined then set_prop inp k (JStr PRUNED_TOOL_INPUT_REPLACEMENT) else inp)"

text \<open>Lines 43 to 57: the content-bearing input fields of a completed write or edit.\<close>

definition pruneInput :: "ToolPart \<Rightarrow> ToolPart" where
  "pruneInput p =
     (if tool p = ''write'' \<or> tool p = ''edit'' then
        (if status (state p) = Completed then
           (let i1 = (if tool p = ''write'' then replace_if_defined ''content'' (input (state p))
                      else input (state p));
                i2 = (if tool p = ''edit''
                      then replace_if_defined ''newString'' (replace_if_defined ''oldString'' i1)
                      else i1)
            in p\<lparr>state := (state p)\<lparr>input := i2\<rparr>\<rparr>)
         else p)
      else p)"

definition redact_string :: "json \<Rightarrow> json" where
  "redact_string v = (if is_string v then JStr PRUNED_TOOL_ERROR_INPUT_REPLACEMENT else v)"

text \<open>
  Lines 61 to 68: \<^verbatim>\<open>input && typeof input === "object"\<close> holds of objects and arrays;
  \<^verbatim>\<open>Object.keys\<close> of an array are its indices.
\<close>

fun redact_error_input :: "json \<Rightarrow> json" where
  "redact_error_input (JObj kvs) = JObj (map (\<lambda>(k, v). (k, redact_string v)) kvs)"
| "redact_error_input (JArr xs) = JArr (map redact_string xs)"
| "redact_error_input x = x"

definition pruneError :: "ToolPart \<Rightarrow> ToolPart" where
  "pruneError p =
     (if status (state p) = Error
      then p\<lparr>state := (state p)\<lparr>input := redact_error_input (input (state p))\<rparr>\<rparr>
      else p)"

text \<open>The body of the inner loop, lines 27 to 70, for one part.\<close>

fun prunePart :: "SessionState \<Rightarrow> Part \<Rightarrow> Part" where
  "prunePart st (NonTool t payload) = NonTool t payload"
| "prunePart st (Tool p) =
     (if callID p \<notin> set (toolIds st) then Tool p
      else Tool (pruneError (pruneInput (pruneOutput p))))"

definition pruneMessages ::
  "(SessionState \<Rightarrow> WithParts \<Rightarrow> bool) \<Rightarrow> SessionState \<Rightarrow> WithParts list \<Rightarrow> WithParts list" where
  "pruneMessages isMessageCompacted st messages =
     map (\<lambda>msg. if isMessageCompacted st msg then msg
                else msg\<lparr>parts := map (prunePart st) (parts msg)\<rparr>) messages"

definition prune ::
  "(SessionState \<Rightarrow> WithParts \<Rightarrow> bool) \<Rightarrow> SessionState \<Rightarrow> WithParts list \<Rightarrow> WithParts list" where
  "prune isMessageCompacted st messages = pruneMessages isMessageCompacted st messages"

section \<open>Semantic janitor (lib/janitor.ts)\<close>

text \<open>
  The external collaborators of one run: the orchestrator's history fetch, the oracle
  (\<^verbatim>\<open>generateObject\<close>, which raises on a transport failure and on a result that does not
  match the schema) and the toast. Each either returns or raises. The fetch returns the
  message array (\<^verbatim>\<open>response.data || response\<close>); any other shape of response raises
  inside the \<^verbatim>\<open>try\<close> block before anything is written, like a failed fetch. Calls of the
  logger are left out: they return nothing that the run uses.

  The run is one task among others. It reads the stored list at line 109, awaits the
  oracle at line 132 and writes at line 212; \<^verbatim>\<open>meanwhile\<close> is what the other tasks (the
  request path, a second run for the same session) do to the store during that wait. The
  fetch is awaited before the run touches the store and the toast after its write, so
  what happens during those waits is part of the store the run finds, or comes after it.
\<close>

record OracleResult =
  pruned_tool_call_ids :: "string list"
  reasoning :: string

record JanitorEnv =
  session_messages :: "string \<Rightarrow> exn + WithParts list"
  generateObject :: "string list \<Rightarrow> WithParts list \<Rightarrow> exn + OracleResult"
  meanwhile :: "StateManager \<Rightarrow> StateManager"
  showToast :: "nat \<Rightarrow> nat \<Rightarrow> exn + unit"

text \<open>
  What a run does to the outside, in order. A toast is recorded with the two numbers its
  message is built from: how many outputs were pruned, and the estimate of tokens saved.
\<close>

datatype Event =
    FetchMessages string
  | OracleCall "string list"
  | StoreSet string "string list"
  | ShowToast nat nat

text \<open>The locals of the scan, lines 44 to 47.\<close>

record Scan =
  toolCallIds :: "string list"
  toolOutputs :: "string \<rightharpoonup> string"
  batchToolChildren :: "string \<rightharpoonup> string list"
  currentBatchId :: "string option"

definition scan_init :: Scan where
  "scan_init = \<lparr>toolCallIds = [], toolOutputs = Map.empty, batchToolChildren = Map.empty,
                 currentBatchId = None\<rparr>"

text \<open>\<^verbatim>\<open>currentBatchId &&\<close>: a string that is not empty.\<close>

fun current_batch :: "string option \<Rightarrow> string option" where
  "current_batch None = None"
| "current_batch (Some b) = (if b = [] then None else Some b)"

text \<open>
  Lines 52 to 90 for one part. \<^verbatim>\<open>batchToolChildren.get(currentBatchId)!\<close> is used without
  a check; a missing entry would raise a TypeError at \<^verbatim>\<open>children.push\<close> or \<^verbatim>\<open>.length\<close>.
\<close>

fun scan_part :: "Scan \<Rightarrow> Part \<Rightarrow> exn + Scan" where
  "scan_part sc (NonTool t payload) = Inr sc"
| "scan_part sc (Tool p) =
     (if callID p = [] then Inr sc
      else
        let sc1 = sc\<lparr>toolCallIds := toolCallIds sc @ [callID p]\<rparr>;
            sc2 = (case (status (state p), output_text (state p)) of
                     (Completed, Some out) \<Rightarrow>
                       if out \<noteq> [] then sc1\<lparr>toolOutputs := (toolOutputs sc1)(callID p \<mapsto> out)\<rparr>
                       else sc1
                   | _ \<Rightarrow> sc1)
        in if tool p = ''batch'' then
             Inr (sc2\<lparr>currentBatchId := Some (callID p),
                      batchToolChildren := (batchToolChildren sc2)(callID p \<mapsto> [])\<rparr>)
           else
             (case current_batch (currentBatchId sc2) of
                None \<Rightarrow> Inr sc2
              | Some b \<Rightarrow>
                  (case batchToolChildren sc2 b of
                     None \<Rightarrow> Inl TypeError
                   | Some children \<Rightarrow>
                       if prefix ''prt_'' (callID p)
                       then Inr (sc2\<lparr>batchToolChildren := (batchToolChildren sc2)(b \<mapsto> children @ [callID p])\<rparr>)
                       else Inr (sc2\<lparr>currentBatchId := None\<rparr>))))"

fun scan_parts :: "Scan \<Rightarrow> Part list \<Rightarrow> exn + Scan" where
  "scan_parts sc [] = Inr sc"
| "scan_parts sc (part # ps) =
     (case scan_part sc part of Inl e \<Rightarrow> Inl e | Inr sc' \<Rightarrow> scan_parts sc' ps)"

text \<open>Lines 49 to 93; \<^verbatim>\<open>if (msg.parts)\<close> holds of every array.\<close>

fun scan_messages :: "Scan \<Rightarrow> WithParts list \<Rightarrow> exn + Scan" where
  "scan_messages sc [] = Inr sc"
| "scan_messages sc (msg # ms) =
     (case scan_parts sc (parts msg) of Inl e \<Rightarrow> Inl e | Inr sc' \<Rightarrow> scan_messages sc' ms)"

text \<open>A JavaScript \<^verbatim>\<open>Set\<close> of strings as the list of its elements in insertion order.\<close>

definition set_add :: "string list \<Rightarrow> string \<Rightarrow> string list" where
  "set_add s x = (if x \<in> set s then s else s @ [x])"

text \<open>Lines 171 to 186.\<close>

fun expand_ids :: "(string \<rightharpoonup> string list) \<Rightarrow> string list \<Rightarrow> string list \<Rightarrow> string list" where
  "expand_ids bm expandedPrunedIds [] = expandedPrunedIds"
| "expand_ids bm expandedPrunedIds (prunedId # rest) =
     (let s1 = set_add expandedPrunedIds prunedId;
          s2 = (case bm prunedId of None \<Rightarrow> s1 | Some children \<Rightarrow> foldl set_add s1 children)
      in expand_ids bm s2 rest)"

text \<open>Lines 199 to 208; \<^verbatim>\<open>Math.round(n / 4)\<close> of a natural number rounds halves up.\<close>

definition totalCharsSaved :: "(string \<rightharpoonup> string) \<Rightarrow> string list \<Rightarrow> nat" where
  "totalCharsSaved outs finalPrunedIds =
     sum_list (map (\<lambda>prunedId. case outs prunedId of None \<Rightarrow> 0 | Some out \<Rightarrow> length out) finalPrunedIds)"

definition estimatedTokensSaved :: "nat \<Rightarrow> nat" where
  "estimatedTokensSaved chars = (chars + 2) div 4"

text \<open>
  The body of the \<^verbatim>\<open>try\<close> block: its outcome (returned, or the exception raised), the
  store and the events at that moment.
\<close>

definition Janitor_run_body ::
  "JanitorEnv \<Rightarrow> StateManager \<Rightarrow> string \<Rightarrow> (exn + unit) \<times> StateManager \<times> Event list" where
  "Janitor_run_body env st sessionID =
     (case session_messages env sessionID of
        Inl e \<Rightarrow> (Inl e, st, [FetchMessages sessionID])
      | Inr messages \<Rightarrow>
          if length messages < 3 then (Inr (), st, [FetchMessages sessionID])
          else
            (case scan_messages scan_init messages of
               Inl e \<Rightarrow> (Inl e, st, [FetchMessages sessionID])
             | Inr sc \<Rightarrow>
                 let alreadyPrunedIds = StateManager_get st sessionID;
                     unprunedToolCallIds = filter (\<lambda>i. i \<notin> set alreadyPrunedIds) (toolCallIds sc)
                 in if unprunedToolCallIds = [] then (Inr (), st, [FetchMessages sessionID])
                    else
                      (case generateObject env unprunedToolCallIds messages of
                         Inl e \<Rightarrow> (Inl e, meanwhile env st,
                                   [FetchMessages sessionID, OracleCall unprunedToolCallIds])
                       | Inr result \<Rightarrow>
                           let finalPrunedIds = expand_ids (batchToolChildren sc) [] (pruned_tool_call_ids result);
                               tokens = estimatedTokensSaved (totalCharsSaved (toolOutputs sc) finalPrunedIds);
                               allPrunedIds = foldl set_add [] (alreadyPrunedIds @ finalPrunedIds);
                               st' = StateManager_set (meanwhile env st) sessionID allPrunedIds;
                               evs = [FetchMessages sessionID, OracleCall unprunedToolCallIds,
                                      StoreSet sessionID allPrunedIds]
                           in if length finalPrunedIds > 0
                              then (case showToast env (length finalPrunedIds) tokens of
                                      Inl toastError \<Rightarrow> (Inr (), st', evs @ [ShowToast (length finalPrunedIds) tokens])
                                    | Inr u \<Rightarrow> (Inr (), st', evs @ [ShowToast (length finalPrunedIds) tokens]))
                              else (Inr (), st', evs))))"

text \<open>Lines 17 and 246 to 254: the \<^verbatim>\<open>catch\<close> logs and returns.\<close>

definition Janitor_run ::
  "JanitorEnv \<Rightarrow> StateManager \<Rightarrow> string \<Rightarrow> (exn + unit) \<times> StateManager \<times> Event list" where
  "Janitor_run env st sessionID =
     (case Janitor_run_body env st sessionID of
        (Inl error, st', evs) \<Rightarrow> (Inr (), st', evs)
      | (Inr u, st', evs) \<Rightarrow> (Inr u, st', evs))"

text \<open>The tool-call identifiers of a history: every tool part with a non-empty call identifier.\<close>

fun part_ids :: "Part \<Rightarrow> string list" where
  "part_ids (NonTool t payload) = []"
| "part_ids (Tool p) = (if callID p = [] then [] else [callID p])"

definition history_ids :: "WithParts list \<Rightarrow> string list" where
  "history_ids messages = concat (map (\<lambda>msg. concat (map part_ids (parts msg))) messages)"

text \<open>The events that reach beyond the run: an oracle call, a store write, a notification.\<close>

fun is_effect :: "Event \<Rightarrow> bool" where
  "is_effect (FetchMessages s) = False"
| "is_effect _ = True"

text \<open>The cursor of the scan, when set, names a batch that has an entry.\<close>

definition scan_ok :: "Scan \<Rightarrow> bool" where
  "scan_ok sc = (case current_batch (currentBatchId sc) of None \<Rightarrow> True
                 | Some b \<Rightarrow> batchToolChildren sc b \<noteq> None)"

section \<open>Wire-format helpers and the Bedrock descriptor (lib/factory.ts)\<close>

text \<open>
  \<^verbatim>\<open>String.prototype.toLowerCase\<close> belongs to the runtime and follows the Unicode case
  mappings. The operations that call it take it as a parameter, named \<^verbatim>\<open>toLowerCase\<close>, so
  that what is proved of them holds for the runtime's function. On strings of ASCII
  characters that function is \<^verbatim>\<open>ascii_toLowerCase\<close>, which the sample inputs use.
\<close>

definition ascii_lower_char :: "char \<Rightarrow> char" where
  "ascii_lower_char c =
     (let n = (of_char c :: nat) in if 65 \<le> n \<and> n \<le> 90 then char_of (n + 32) else c)"

definition ascii_toLowerCase :: "string \<Rightarrow> string" where
  "ascii_toLowerCase s = map ascii_lower_char s"

text \<open>The decimal numeral of an array index, as a property name.\<close>

fun show_nat :: "nat \<Rightarrow> string" where
  "show_nat n =
     (if n < 10 then [char_of (48 + n)] else show_nat (n div 10) @ [char_of (48 + n mod 10)])"

text \<open>
  The own enumerable properties that \<^verbatim>\<open>{...x}\<close> copies: those of an object, the indexed
  elements of an array or a string, none of any other value.
\<close>

fun spread :: "json \<Rightarrow> (string \<times> json) list" where
  "spread (JObj kvs) = kvs"
| "spread (JArr xs) = zip (map show_nat [0..<length xs]) xs"
| "spread (JStr s) = zip (map show_nat [0..<length s]) (map (\<lambda>c. JStr [c]) s)"
| "spread _ = []"

text \<open>\<^verbatim>\<open>{...x, k: v}\<close>.\<close>

definition spread_with :: "json \<Rightarrow> string \<Rightarrow> json \<Rightarrow> json" where
  "spread_with x k v = JObj (AList.update k v (spread x))"

subsection \<open>injectSynth\<close>

definition isNudgeMessage :: "json \<Rightarrow> string \<Rightarrow> exn + bool" where
  "isNudgeMessage msg nudgeText =
     (case get_prop msg ''content'' of
        Inl e \<Rightarrow> Inl e
      | Inr (JStr c) \<Rightarrow> Inr (c = nudgeText)
      | Inr _ \<Rightarrow> Inr False)"

text \<open>The callback of \<^verbatim>\<open>some\<close>, line 42; \<^verbatim>\<open>includes\<close> is the contiguous-sublist test.\<close>

definition part_has_instruction :: "string \<Rightarrow> json \<Rightarrow> bool" where
  "part_has_instruction instruction part =
     (opt_prop part ''type'' = JStr ''text'' \<and>
      (case opt_prop part ''text'' of JStr t \<Rightarrow> sublist instruction t | _ \<Rightarrow> False))"

definition blank_line :: string where
  "blank_line = [CHR 0x0A, CHR 0x0A]"

text \<open>
  The loop of lines 31 to 49 runs from the last message to the first; here it takes the
  messages most recent first and returns them in the same order. A message that is
  \<^verbatim>\<open>null\<close> or \<^verbatim>\<open>undefined\<close> raises at \<^verbatim>\<open>msg.role\<close>, before anything is changed.
\<close>

fun injectSynth_from_end :: "json list \<Rightarrow> string \<Rightarrow> string \<Rightarrow> (exn + bool) \<times> json list" where
  "injectSynth_from_end [] instruction nudgeText = (Inr False, [])"
| "injectSynth_from_end (msg # older) instruction nudgeText =
     (case get_prop msg ''role'' of
        Inl e \<Rightarrow> (Inl e, msg # older)
      | Inr role \<Rightarrow>
          if role = JStr ''user'' then
            (case isNudgeMessage msg nudgeText of
               Inl e \<Rightarrow> (Inl e, msg # older)
             | Inr True \<Rightarrow>
                 (let (r, older') = injectSynth_from_end older instruction nudgeText
                  in (r, msg # older'))
             | Inr False \<Rightarrow>
                 (case opt_prop msg ''content'' of
                    JStr c \<Rightarrow>
                      if sublist instruction c then (Inr False, msg # older)
                      else (Inr True,
                            set_prop msg ''content'' (JStr (c @ blank_line @ instruction)) # older)
                  | JArr ps \<Rightarrow>
                      if list_ex (part_has_instruction instruction) ps then (Inr False, msg # older)
                      else (Inr True,
                            set_prop msg ''content''
                              (JArr (ps @ [JObj [(''type'', JStr ''text''), (''text'', JStr instruction)]]))
                            # older)
                  | _ \<Rightarrow> (Inr True, msg # older)))
          else
            (let (r, older') = injectSynth_from_end older instruction nudgeText
             in (r, msg # older')))"

definition injectSynth :: "json list \<Rightarrow> string \<Rightarrow> string \<Rightarrow> (exn + bool) \<times> json list" where
  "injectSynth messages instruction nudgeText =
     (let (r, ms) = injectSynth_from_end (rev messages) instruction nudgeText in (r, rev ms))"

subsection \<open>trackNewToolResults\<close>








subsection \<open>bedrockFormat\<close>

definition detect :: "json \<Rightarrow> exn + bool" where
  "detect body =
     (case get_prop body ''system'' of
        Inl e \<Rightarrow> Inl e
      | Inr sys \<Rightarrow>
          Inr (is_array sys \<and> opt_prop body ''inferenceConfig'' \<noteq> JUndefined
               \<and> is_array (opt_prop body ''messages'')))"

definition getDataArray :: "json \<Rightarrow> exn + json" where
  "getDataArray body = get_prop body ''messages''"

text \<open>\<^verbatim>\<open>x?.toLowerCase()\<close>: a value that is neither a string nor nullish has no such method.\<close>

fun lower_opt :: "(string \<Rightarrow> string) \<Rightarrow> json \<Rightarrow> exn + json" where
  "lower_opt toLowerCase JUndefined = Inr JUndefined"
| "lower_opt toLowerCase JNull = Inr JUndefined"
| "lower_opt toLowerCase (JStr s) = Inr (JStr (toLowerCase s))"
| "lower_opt toLowerCase _ = Inl TypeError"

text \<open>The callback of \<^verbatim>\<open>map\<close>, lines 189 to 202: whether the block matched, and the new block.\<close>

definition replace_block :: "(string \<Rightarrow> string) \<Rightarrow> string \<Rightarrow> string \<Rightarrow> json \<Rightarrow> exn + (bool \<times> json)" where
  "replace_block toLowerCase toolIdLower prunedMessage block =
     (case get_prop block ''toolResult'' of
        Inl e \<Rightarrow> Inl e
      | Inr tr \<Rightarrow>
          if truthy tr then
            (case lower_opt toLowerCase (opt_prop tr ''toolUseId'') of
               Inl e \<Rightarrow> Inl e
             | Inr l \<Rightarrow>
                 if l = JStr toolIdLower
                 then Inr (True,
                        spread_with block ''toolResult''
                          (spread_with tr ''content'' (JArr [JObj [(''text'', JStr prunedMessage)]])))
                 else Inr (False, block))
          else Inr (False, block))"

text \<open>\<^verbatim>\<open>Array.prototype.map\<close> with a callback that may raise and that sets \<^verbatim>\<open>messageModified\<close>.\<close>

fun map_blocks :: "(json \<Rightarrow> exn + (bool \<times> json)) \<Rightarrow> json list \<Rightarrow> exn + (bool \<times> json list)" where
  "map_blocks f [] = Inr (False, [])"
| "map_blocks f (block # bs) =
     (case f block of
        Inl e \<Rightarrow> Inl e
      | Inr (modified, block') \<Rightarrow>
          (case map_blocks f bs of
             Inl e \<Rightarrow> Inl e
           | Inr (modified', bs') \<Rightarrow> Inr (modified \<or> modified', block' # bs')))"

text \<open>Lines 184 to 207 for one message: whether it was replaced, and the new \<^verbatim>\<open>data[i]\<close>.\<close>

definition replace_in_message :: "(string \<Rightarrow> string) \<Rightarrow> string \<Rightarrow> string \<Rightarrow> json \<Rightarrow> exn + (bool \<times> json)" where
  "replace_in_message toLowerCase toolIdLower prunedMessage m =
     (case get_prop m ''role'' of
        Inl e \<Rightarrow> Inl e
      | Inr role \<Rightarrow>
          if role = JStr ''user'' then
            (case opt_prop m ''content'' of
               JArr blocks \<Rightarrow>
                 (case map_blocks (replace_block toLowerCase toolIdLower prunedMessage) blocks of
                    Inl e \<Rightarrow> Inl e
                  | Inr (messageModified, newContent) \<Rightarrow>
                      if messageModified then Inr (True, spread_with m ''content'' (JArr newContent))
                      else Inr (False, m))
             | _ \<Rightarrow> Inr (False, m))
          else Inr (False, m))"

text \<open>
  The loop over \<^verbatim>\<open>data\<close>, which is updated in place: when a message raises, the messages
  before it have been replaced already and the rest is as it was.
\<close>

fun replace_loop :: "(string \<Rightarrow> string) \<Rightarrow> string \<Rightarrow> string \<Rightarrow> json list \<Rightarrow> bool \<Rightarrow> (exn + bool) \<times> json list" where
  "replace_loop toLowerCase toolIdLower prunedMessage [] replaced = (Inr replaced, [])"
| "replace_loop toLowerCase toolIdLower prunedMessage (m # ms) replaced =
     (case replace_in_message toLowerCase toolIdLower prunedMessage m of
        Inl e \<Rightarrow> (Inl e, m # ms)
      | Inr (modified, m') \<Rightarrow>
          (let (r, ms') = replace_loop toLowerCase toolIdLower prunedMessage ms (replaced \<or> modified)
           in (r, m' # ms')))"

definition replaceToolOutput ::
  "(string \<Rightarrow> string) \<Rightarrow> json list \<Rightarrow> string \<Rightarrow> string \<Rightarrow> (exn + bool) \<times> json list" where
  "replaceToolOutput toLowerCase data toolId prunedMessage =
     replace_loop toLowerCase (toLowerCase toolId) prunedMessage data False"

text \<open>
  The body after \<^verbatim>\<open>replaceToolOutput(getDataArray(body), ...)\<close>: the array that was
  updated in place is the body's own \<^verbatim>\<open>messages\<close>.
\<close>

definition body_with_messages :: "json \<Rightarrow> json list \<Rightarrow> json" where
  "body_with_messages body data = set_prop body ''messages'' (JArr data)"

text \<open>
  What the claims say of a block and a message, read off the values: a block whose
  \<^verbatim>\<open>toolResult.toolUseId\<close> is a string equal to the identifier up to case, and the blocks
  of a user message whose content is an array.
\<close>

definition block_matches :: "(string \<Rightarrow> string) \<Rightarrow> string \<Rightarrow> json \<Rightarrow> bool" where
  "block_matches toLowerCase toolId block =
     (case opt_prop (opt_prop block ''toolResult'') ''toolUseId'' of
        JStr s \<Rightarrow> toLowerCase s = toLowerCase toolId
      | _ \<Rightarrow> False)"

definition user_blocks :: "json \<Rightarrow> json list" where
  "user_blocks m =
     (if opt_prop m ''role'' = JStr ''user''
      then (case opt_prop m ''content'' of JArr blocks \<Rightarrow> blocks | _ \<Rightarrow> [])
      else [])"

definition overwrite_block :: "string \<Rightarrow> json \<Rightarrow> json" where
  "overwrite_block prunedMessage block =
     set_prop block ''toolResult''
       (set_prop (opt_prop block ''toolResult'') ''content'' (JArr [JObj [(''text'', JStr prunedMessage)]]))"

definition message_after :: "(string \<Rightarrow> string) \<Rightarrow> string \<Rightarrow> string \<Rightarrow> json \<Rightarrow> json" where
  "message_after toLowerCase toolId prunedMessage m =
     (if list_ex (block_matches toLowerCase toolId) (user_blocks m)
      then set_prop m ''content''
             (JArr (map (\<lambda>b. if block_matches toLowerCase toolId b then overwrite_block prunedMessage b else b)
                        (user_blocks m)))
      else m)"

text \<open>
  Inputs on which \<^verbatim>\<open>replaceToolOutput\<close> returns: no message and no block of a user
  message is \<^verbatim>\<open>null\<close> or \<^verbatim>\<open>undefined\<close>, and a \<^verbatim>\<open>toolResult.toolUseId\<close> is a string or
  absent.
\<close>

definition block_ok :: "json \<Rightarrow> bool" where
  "block_ok block =
     (block \<noteq> JUndefined \<and> block \<noteq> JNull \<and>
      (case opt_prop (opt_prop block ''toolResult'') ''toolUseId'' of
         JStr s \<Rightarrow> True | JUndefined \<Rightarrow> True | JNull \<Rightarrow> True | _ \<Rightarrow> False))"

definition message_ok :: "json \<Rightarrow> bool" where
  "message_ok m = (m \<noteq> JUndefined \<and> m \<noteq> JNull \<and> list_all block_ok (user_blocks m))"

text \<open>
  The message that \<^verbatim>\<open>injectSynth\<close> looks for: a user message whose content is not exactly
  the nudge text; and a message that its loop passes over.
\<close>

definition is_target :: "string \<Rightarrow> json \<Rightarrow> bool" where
  "is_target nudgeText msg =
     (opt_prop msg ''role'' = JStr ''user'' \<and> opt_prop msg ''content'' \<noteq> JStr nudgeText)"

definition passed_over :: "string \<Rightarrow> json \<Rightarrow> bool" where
  "passed_over nudgeText msg = (msg \<noteq> JUndefined \<and> msg \<noteq> JNull \<and> \<not> is_target nudgeText msg)"

subsection \<open>cacheToolParameters and extractToolOutputs\<close>
























section \<open>Sample data\<close>

text \<open>A history with two batches, and environments whose oracle fails or names the first batch.\<close>

definition ex_tool :: "string \<Rightarrow> string \<Rightarrow> ToolStatus \<Rightarrow> string option \<Rightarrow> Part" where
  "ex_tool cid name stat out =
     Tool \<lparr>callID = cid, tool = name,
           state = \<lparr>status = stat, input = JObj [], output_text = out, state_rest = []\<rparr>,
           part_rest = []\<rparr>"

definition ex_history :: "WithParts list" where
  "ex_history =
     [\<lparr>info = JNull, parts = [ex_tool ''b1'' ''batch'' Completed (Some ''ok''),
                              ex_tool ''prt_1'' ''read'' Completed (Some ''12345678''),
                              ex_tool ''prt_2'' ''read'' Completed (Some ''1234'')]\<rparr>,
      \<lparr>info = JNull, parts = [NonTool ''text'' (JStr ''hello''),
                              ex_tool ''c3'' ''bash'' Error None]\<rparr>,
      \<lparr>info = JNull, parts = [ex_tool ''b2'' ''batch'' Completed (Some ''ok''),
                              ex_tool ''prt_9'' ''grep'' Completed (Some ''xy'')]\<rparr>]"

definition ex_unpruned :: "string list" where
  "ex_unpruned = [''b1'', ''prt_1'', ''prt_2'', ''c3'', ''b2'', ''prt_9'']"

text \<open>An oracle that fails on the call made for the sample history and an empty store only.\<close>

definition ex_env_failing :: JanitorEnv where
  "ex_env_failing =
     \<lparr>session_messages = (\<lambda>s. Inr ex_history),
      generateObject = (\<lambda>ids msgs. if ids = ex_unpruned then Inl SchemaError
                        else Inr \<lparr>pruned_tool_call_ids = ids, reasoning = ''all''\<rparr>),
      meanwhile = (\<lambda>st. st),
      showToast = (\<lambda>n t. Inr ())\<rparr>"

definition ex_env :: JanitorEnv where
  "ex_env =
     \<lparr>session_messages = (\<lambda>s. Inr ex_history),
      generateObject = (\<lambda>ids msgs. Inr \<lparr>pruned_tool_call_ids = [''b1''], reasoning = ''superseded''\<rparr>),
      meanwhile = (\<lambda>st. st),
      showToast = (\<lambda>n t. Inl ToastError)\<rparr>"

text \<open>The same, with another task storing an identifier while the run awaits the oracle.\<close>

definition ex_env_racing :: JanitorEnv where
  "ex_env_racing = ex_env\<lparr>meanwhile := (\<lambda>st. StateManager_set st ''s'' [''c3'', ''new''])\<rparr>"

text \<open>
  A failed shell call, a completed write and a session state with a given pruned list.
\<close>

definition ex_error_part :: ToolPart where
  "ex_error_part =
     \<lparr>callID = ''c1'', tool = ''bash'',
      state = \<lparr>status = Error, input = JObj [(''command'', JStr ''ls''), (''timeout'', JNum 5)],
               output_text = None, state_rest = [(''error'', JStr ''Command aborted by user'')]\<rparr>,
      part_rest = []\<rparr>"

definition ex_write_part :: ToolPart where
  "ex_write_part =
     \<lparr>callID = ''c2'', tool = ''write'',
      state = \<lparr>status = Completed,
               input = JObj [(''filePath'', JStr ''/tmp/a.txt''), (''content'', JStr ''hello world'')],
               output_text = Some ''written'', state_rest = [(''title'', JStr ''a.txt'')]\<rparr>,
      part_rest = []\<rparr>"

definition ex_session :: "string list \<Rightarrow> SessionState" where
  "ex_session ids = \<lparr>toolIds = ids, compaction = JNull\<rparr>"

definition ex_store :: StateManager where
  "ex_store = StateManager_set Map.empty ''s'' [''c3'']"

definition ex_store_full :: StateManager where
  "ex_store_full = StateManager_set Map.empty ''s'' [''b1'', ''prt_1'', ''prt_2'', ''c3'', ''b2'', ''prt_9'']"

text \<open>
  A Bedrock body and its messages, a tool-result message of the chat format, and a fresh tracker.
\<close>

definition ex_result_block :: "json \<Rightarrow> json" where
  "ex_result_block tid =
     JObj [(''toolResult'',
            JObj [(''toolUseId'', tid), (''content'', JArr [JObj [(''text'', JStr ''big output'')]]),
                  (''status'', JStr ''success'')])]"

definition ex_message :: "string \<Rightarrow> json \<Rightarrow> json" where
  "ex_message role content = JObj [(''role'', JStr role), (''content'', content)]"

definition ex_body :: "json list \<Rightarrow> json" where
  "ex_body data =
     JObj [(''system'', JArr [JObj [(''text'', JStr ''be brief'')]]),
           (''messages'', JArr data),
           (''inferenceConfig'', JObj [(''maxTokens'', JNum 1024)])]"








section \<open>Properties of the state store\<close>

lemma get_after_set:
  "StateManager_get (StateManager_set st s ids) s' = (if s' = s then ids else StateManager_get st s')"
  by (simp add: StateManager_get_def StateManager_set_def Let_def)

lemma get_after_reset:
  "StateManager_get (StateManager_resetLastPruneCount st s) s' = StateManager_get st s'"
  by (simp add: StateManager_get_def StateManager_resetLastPruneCount_def split: option.splits)

lemma get_empty: "StateManager_get Map.empty s = []"
  by (simp add: StateManager_get_def)

text \<open>
  Claim C1, as stated: across every sequence of store operations without teardown the
  result of \<^verbatim>\<open>get\<close> never loses an identifier. The store's \<^verbatim>\<open>set\<close> replaces the stored
  list, so writing the empty list after \<^verbatim>\<open>["a"]\<close> loses \<^verbatim>\<open>"a"\<close>.
\<close>

theorem C1_get_monotone_counterexample:
  "\<not> is_teardown (OpSet ''s'' [])
   \<and> ''a'' \<in> set (StateManager_get (StateManager_set Map.empty ''s'' [''a'']) ''s'')
   \<and> ''a'' \<notin> set (StateManager_get
                     (run_ops (StateManager_set Map.empty ''s'' [''a'']) [OpSet ''s'' []]) ''s'')"
  by (simp add: get_after_set)

text \<open>
  Claim C1, amended: across every sequence of store operations without teardown in which
  each \<^verbatim>\<open>set\<close> passes a list containing the identifiers then stored for its session, every
  identifier returned by \<^verbatim>\<open>get\<close> is returned by every later \<^verbatim>\<open>get\<close> for that session;
  and writing back a list that is already stored leaves the result of \<^verbatim>\<open>get\<close> for
  every session as it was (no store operation has a failing branch).
\<close>

theorem C1_get_monotone_under_superset_writes:
  "(\<forall>op \<in> set ops. \<not> is_teardown op) \<Longrightarrow> superset_writes st ops \<Longrightarrow>
     set (StateManager_get st sid) \<subseteq> set (StateManager_get (run_ops st ops) sid)
     \<and> StateManager_get (StateManager_set st sid (StateManager_get st sid)) sid' = StateManager_get st sid'"
proof (induction ops arbitrary: st)
  case Nil
  then show ?case by (simp add: get_after_set)
next
  case (Cons op ops)
  have step: "set (StateManager_get st sid) \<subseteq> set (StateManager_get (apply_op st op) sid)"
    using Cons.prems by (cases op) (auto simp: get_after_set get_after_reset)
  have rest: "superset_writes (apply_op st op) ops"
    using Cons.prems(2) by (cases op) simp_all
  have "set (StateManager_get (apply_op st op) sid) \<subseteq> set (StateManager_get (run_ops (apply_op st op) ops) sid)"
    using Cons.IH [OF _ rest] Cons.prems(1) by simp
  with step show ?case by (auto simp: get_after_set)
qed

theorem C1_get_monotone_under_superset_writes_witness:
  "superset_writes (StateManager_set Map.empty ''s'' [''a''])
      [OpResetLastPruneCount ''s'', OpSet ''s'' [''a'', ''b'']]
   \<and> set (StateManager_get (StateManager_set Map.empty ''s'' [''a'']) ''s'')
       \<subseteq> set (StateManager_get (run_ops (StateManager_set Map.empty ''s'' [''a''])
                 [OpResetLastPruneCount ''s'', OpSet ''s'' [''a'', ''b'']]) ''s'')"
proof -
  have a: "\<forall>op \<in> set [OpResetLastPruneCount ''s'', OpSet ''s'' [''a'', ''b'']]. \<not> is_teardown op"
    by simp
  have b: "superset_writes (StateManager_set Map.empty ''s'' [''a''])
             [OpResetLastPruneCount ''s'', OpSet ''s'' [''a'', ''b'']]"
    by (simp add: get_after_set get_after_reset)
  show ?thesis
    using C1_get_monotone_under_superset_writes [OF a b, of "''s''" "''s''"] b by simp
qed

section \<open>Properties of the structural mutator\<close>

lemma obj_get_update:
  "obj_get (AList.update k v kvs) k' = (if k' = k then v else obj_get kvs k')"
  by (simp add: obj_get_def update_conv')

lemma opt_prop_defined:
  "opt_prop inp k \<noteq> JUndefined \<Longrightarrow> \<exists>kvs. inp = JObj kvs \<and> k \<in> fst ` set kvs"
  by (cases inp) (auto simp: obj_get_def split: option.splits dest: map_of_SomeD intro: rev_image_eqI)

lemma opt_prop_replace_if_defined:
  "opt_prop (replace_if_defined k inp) k' =
     (if k' = k \<and> opt_prop inp k \<noteq> JUndefined then JStr PRUNED_TOOL_INPUT_REPLACEMENT
      else opt_prop inp k')"
  by (cases inp) (auto simp: replace_if_defined_def obj_get_update)

lemma replace_if_defined_non_object:
  "\<forall>kvs. inp \<noteq> JObj kvs \<Longrightarrow> replace_if_defined k inp = inp"
  by (cases inp) (simp_all add: replace_if_defined_def)

lemma obj_keys_replace_if_defined:
  "obj_keys (replace_if_defined k inp) = obj_keys inp"
proof (cases "opt_prop inp k \<noteq> JUndefined")
  case True
  then obtain kvs where "inp = JObj kvs" "k \<in> fst ` set kvs"
    using opt_prop_defined by blast
  then show ?thesis
    by (simp add: replace_if_defined_def update_keys)
next
  case False
  then show ?thesis by (simp add: replace_if_defined_def)
qed

lemma opt_prop_redact:
  "opt_prop (redact_error_input (JObj kvs)) k = redact_string (opt_prop (JObj kvs) k)"
proof -
  have "map_of (map (\<lambda>(k, v). (k, redact_string v)) kvs) k = map_option redact_string (map_of kvs k)"
    by (induction kvs) auto
  then show ?thesis
    by (simp add: obj_get_def redact_string_def split: option.splits)
qed

lemma obj_keys_redact:
  "obj_keys (redact_error_input (JObj kvs)) = obj_keys (JObj kvs)"
  by (induction kvs) auto

lemma pruneMessages_length: "length (pruneMessages isC st msgs) = length msgs"
  by (simp add: pruneMessages_def)

lemma pruneMessages_part:
  "i < length msgs \<Longrightarrow> \<not> isC st (msgs ! i) \<Longrightarrow> j < length (parts (msgs ! i)) \<Longrightarrow>
     parts (pruneMessages isC st msgs ! i) ! j = prunePart st (parts (msgs ! i) ! j)"
  by (simp add: pruneMessages_def)

lemma pruneMessages_compacted:
  "i < length msgs \<Longrightarrow> isC st (msgs ! i) \<Longrightarrow> pruneMessages isC st msgs ! i = msgs ! i"
  by (simp add: pruneMessages_def)

text \<open>
  Claim C2, as stated: a failed tool part of a message that is not compacted has every
  string-valued input field overwritten whether or not its call identifier is in the
  pruned list. With an empty pruned list the failed call below keeps its input: the test
  of line 31 skips the part before the error branch is reached.
\<close>

theorem C2_counterexample:
  "status (state ex_error_part) = Error
   \<and> opt_prop (input (state ex_error_part)) ''command'' = JStr ''ls''
   \<and> prune (\<lambda>s m. False) (ex_session []) [\<lparr>info = JNull, parts = [Tool ex_error_part]\<rparr>]
       = [\<lparr>info = JNull, parts = [Tool ex_error_part]\<rparr>]"
  by (simp add: prune_def pruneMessages_def ex_session_def ex_error_part_def obj_get_def)

text \<open>
  Claim C2, amended: for a failed tool part of a message that is not compacted, the
  mutator replaces the input by its redaction when the call identifier is in the pruned
  list, and leaves the part as it is otherwise. The redaction of an object keeps the
  property names and their order, turns every string-valued property into the
  failed-call placeholder and keeps every other property.
\<close>

theorem C2_error_inputs:
  assumes "i < length msgs" and "\<not> isC st (msgs ! i)" and "j < length (parts (msgs ! i))"
      and "parts (msgs ! i) ! j = Tool p" and "status (state p) = Error"
  shows "parts (prune isC st msgs ! i) ! j =
           (if callID p \<in> set (toolIds st)
            then Tool (p\<lparr>state := (state p)\<lparr>input := redact_error_input (input (state p))\<rparr>\<rparr>)
            else Tool p)
         \<and> (\<forall>kvs k. input (state p) = JObj kvs \<longrightarrow>
               obj_keys (redact_error_input (JObj kvs)) = obj_keys (JObj kvs)
             \<and> opt_prop (redact_error_input (JObj kvs)) k =
                 (if is_string (opt_prop (JObj kvs) k) then JStr PRUNED_TOOL_ERROR_INPUT_REPLACEMENT
                  else opt_prop (JObj kvs) k))"
proof (intro conjI allI impI)
  have "parts (prune isC st msgs ! i) ! j = prunePart st (Tool p)"
    using assms(1-4) by (simp add: prune_def pruneMessages_part)
  also have "\<dots> = (if callID p \<in> set (toolIds st)
            then Tool (p\<lparr>state := (state p)\<lparr>input := redact_error_input (input (state p))\<rparr>\<rparr>)
            else Tool p)"
    using assms(5) by (simp add: pruneOutput_def pruneInput_def pruneError_def)
  finally show "parts (prune isC st msgs ! i) ! j =
           (if callID p \<in> set (toolIds st)
            then Tool (p\<lparr>state := (state p)\<lparr>input := redact_error_input (input (state p))\<rparr>\<rparr>)
            else Tool p)" .
next
  fix kvs k
  show "obj_keys (redact_error_input (JObj kvs)) = obj_keys (JObj kvs)"
    by (rule obj_keys_redact)
  show "opt_prop (redact_error_input (JObj kvs)) k =
                 (if is_string (opt_prop (JObj kvs) k) then JStr PRUNED_TOOL_ERROR_INPUT_REPLACEMENT
                  else opt_prop (JObj kvs) k)"
    unfolding opt_prop_redact by (simp only: redact_string_def)
qed

theorem C2_error_inputs_witness:
  "prune (\<lambda>s m. False) (ex_session [''c1'']) [\<lparr>info = JNull, parts = [Tool ex_write_part, Tool ex_error_part]\<rparr>] ! 0
     = \<lparr>info = JNull, parts = [Tool (ex_write_part\<lparr>state := (state ex_write_part)\<lparr>input := input (state ex_write_part)\<rparr>\<rparr>),
         Tool (ex_error_part\<lparr>state := (state ex_error_part)
            \<lparr>input := JObj [(''command'', JStr PRUNED_TOOL_ERROR_INPUT_REPLACEMENT), (''timeout'', JNum 5)]\<rparr>\<rparr>)]\<rparr>"
proof -
  let ?msgs = "[\<lparr>info = JNull, parts = [Tool ex_write_part, Tool ex_error_part]\<rparr>]"
  have a: "0 < length ?msgs" by simp
  have b: "\<not> (\<lambda>s m. False) (ex_session [''c1'']) (?msgs ! 0)" by simp
  have c: "1 < length (parts (?msgs ! 0))" by simp
  have d: "parts (?msgs ! 0) ! 1 = Tool ex_error_part" by simp
  have e: "status (state ex_error_part) = Error" by (simp add: ex_error_part_def)
  have f: "callID ex_error_part \<in> set (toolIds (ex_session [''c1'']))"
    by (simp add: ex_error_part_def ex_session_def)
  have g: "redact_error_input (input (state ex_error_part))
             = JObj [(''command'', JStr PRUNED_TOOL_ERROR_INPUT_REPLACEMENT), (''timeout'', JNum 5)]"
    by (simp add: ex_error_part_def redact_string_def)
  have h: "parts (prune (\<lambda>s m. False) (ex_session [''c1'']) ?msgs ! 0) ! 1 =
        Tool (ex_error_part\<lparr>state := (state ex_error_part)
            \<lparr>input := JObj [(''command'', JStr PRUNED_TOOL_ERROR_INPUT_REPLACEMENT), (''timeout'', JNum 5)]\<rparr>\<rparr>)"
    using C2_error_inputs [OF a b c d e] f g by simp
  have k: "prune (\<lambda>s m. False) (ex_session [''c1'']) ?msgs ! 0 =
             \<lparr>info = JNull, parts = [Tool ex_write_part, parts (prune (\<lambda>s m. False) (ex_session [''c1'']) ?msgs ! 0) ! 1]\<rparr>"
    by (simp add: prune_def pruneMessages_def ex_session_def ex_write_part_def)
  show ?thesis
    using h k by simp
qed

text \<open>
  Claim C6: for a completed tool part of a message that is not compacted whose call
  identifier is in the pruned list: a tool other than write and edit gets its output
  replaced by the output placeholder and nothing else changes; for write and edit only
  the input changes, it keeps its property names, a defined \<^verbatim>\<open>content\<close> (write) or a
  defined \<^verbatim>\<open>oldString\<close> or \<^verbatim>\<open>newString\<close> (edit) becomes the input placeholder, and
  every other property is as before.
\<close>

theorem C6_completed_parts:
  assumes "i < length msgs" and "\<not> isC st (msgs ! i)" and "j < length (parts (msgs ! i))"
      and "parts (msgs ! i) ! j = Tool p" and "status (state p) = Completed"
      and "callID p \<in> set (toolIds st)"
  shows "\<exists>inp'. parts (prune isC st msgs ! i) ! j =
           (if tool p \<noteq> ''write'' \<and> tool p \<noteq> ''edit''
            then Tool (p\<lparr>state := (state p)\<lparr>output_text := Some PRUNED_TOOL_OUTPUT_REPLACEMENT\<rparr>\<rparr>)
            else Tool (p\<lparr>state := (state p)\<lparr>input := inp'\<rparr>\<rparr>))
          \<and> obj_keys inp' = obj_keys (input (state p))
          \<and> ((\<forall>kvs. input (state p) \<noteq> JObj kvs) \<longrightarrow> inp' = input (state p))
          \<and> (\<forall>k. opt_prop inp' k =
                (if opt_prop (input (state p)) k \<noteq> JUndefined
                    \<and> (tool p = ''write'' \<and> k = ''content''
                        \<or> tool p = ''edit'' \<and> (k = ''oldString'' \<or> k = ''newString''))
                 then JStr PRUNED_TOOL_INPUT_REPLACEMENT
                 else opt_prop (input (state p)) k))"
proof -
  have nav: "parts (prune isC st msgs ! i) ! j = prunePart st (Tool p)"
    using assms(1-4) by (simp add: prune_def pruneMessages_part)
  consider (plain) "tool p \<noteq> ''write''" "tool p \<noteq> ''edit''" | (wr) "tool p = ''write''" | (ed) "tool p = ''edit''"
    by blast
  then show ?thesis
  proof cases
    case plain
    have "prunePart st (Tool p) = Tool (p\<lparr>state := (state p)\<lparr>output_text := Some PRUNED_TOOL_OUTPUT_REPLACEMENT\<rparr>\<rparr>)"
      using assms(5,6) plain by (simp add: pruneOutput_def pruneInput_def pruneError_def)
    with nav plain show ?thesis
      by (intro exI [of _ "input (state p)"]) simp
  next
    case wr
    have "prunePart st (Tool p) = Tool (p\<lparr>state := (state p)\<lparr>input := replace_if_defined ''content'' (input (state p))\<rparr>\<rparr>)"
      using assms(5,6) wr by (simp add: pruneOutput_def pruneInput_def pruneError_def)
    with nav wr show ?thesis
      by (intro exI [of _ "replace_if_defined ''content'' (input (state p))"])
         (auto simp: obj_keys_replace_if_defined opt_prop_replace_if_defined replace_if_defined_non_object)
  next
    case ed
    have "prunePart st (Tool p) = Tool (p\<lparr>state := (state p)\<lparr>input :=
            replace_if_defined ''newString'' (replace_if_defined ''oldString'' (input (state p)))\<rparr>\<rparr>)"
      using assms(5,6) ed by (simp add: pruneOutput_def pruneInput_def pruneError_def)
    with nav ed show ?thesis
      by (intro exI [of _ "replace_if_defined ''newString'' (replace_if_defined ''oldString'' (input (state p)))"])
         (auto simp: obj_keys_replace_if_defined opt_prop_replace_if_defined replace_if_defined_non_object)
  qed
qed

theorem C6_completed_parts_witness:
  "parts (prune (\<lambda>s m. False) (ex_session [''c2'']) [\<lparr>info = JNull, parts = [Tool ex_write_part]\<rparr>] ! 0) ! 0
     = Tool (ex_write_part\<lparr>state := (state ex_write_part)
         \<lparr>input := JObj [(''filePath'', JStr ''/tmp/a.txt''), (''content'', JStr PRUNED_TOOL_INPUT_REPLACEMENT)]\<rparr>\<rparr>)"
proof -
  let ?msgs = "[\<lparr>info = JNull, parts = [Tool ex_write_part]\<rparr>]"
  have a: "0 < length ?msgs" by simp
  have b: "\<not> (\<lambda>s m. False) (ex_session [''c2'']) (?msgs ! 0)" by simp
  have c: "0 < length (parts (?msgs ! 0))" by simp
  have d: "parts (?msgs ! 0) ! 0 = Tool ex_write_part" by simp
  have e: "status (state ex_write_part) = Completed" by (simp add: ex_write_part_def)
  have f: "callID ex_write_part \<in> set (toolIds (ex_session [''c2'']))"
    by (simp add: ex_write_part_def ex_session_def)
  have t: "tool ex_write_part = ''write''" by (simp add: ex_write_part_def)
  have i: "input (state ex_write_part) = JObj [(''filePath'', JStr ''/tmp/a.txt''), (''content'', JStr ''hello world'')]"
    by (simp add: ex_write_part_def)
  from C6_completed_parts [OF a b c d e f] obtain inp' where
    r: "parts (prune (\<lambda>s m. False) (ex_session [''c2'']) ?msgs ! 0) ! 0
          = Tool (ex_write_part\<lparr>state := (state ex_write_part)\<lparr>input := inp'\<rparr>\<rparr>)"
    using t by auto
  have "prunePart (ex_session [''c2'']) (Tool ex_write_part)
      = Tool (ex_write_part\<lparr>state := (state ex_write_part)
         \<lparr>input := JObj [(''filePath'', JStr ''/tmp/a.txt''), (''content'', JStr PRUNED_TOOL_INPUT_REPLACEMENT)]\<rparr>\<rparr>)"
    using f e t i
    by (simp add: pruneOutput_def pruneInput_def pruneError_def replace_if_defined_def obj_get_def)
  then show ?thesis
    using r by (simp add: prune_def pruneMessages_def)
qed

section \<open>Properties of the Bedrock descriptor\<close>

lemma get_prop_opt: "x \<noteq> JUndefined \<Longrightarrow> x \<noteq> JNull \<Longrightarrow> get_prop x k = Inr (opt_prop x k)"
  by (cases x) simp_all

lemma get_prop_Inr: "get_prop x k = Inr v \<Longrightarrow> v = opt_prop x k \<and> x \<noteq> JUndefined \<and> x \<noteq> JNull"
  by (cases x) auto

lemma opt_prop_JStr_obj: "opt_prop x k = JStr s \<Longrightarrow> \<exists>kvs. x = JObj kvs"
  by (cases x) simp_all

lemma not_truthy_opt_prop: "\<not> truthy x \<Longrightarrow> opt_prop x k = JUndefined"
  by (cases x) simp_all

lemma replace_block_result:
  assumes "replace_block toLowerCase (toLowerCase toolId) prunedMessage block = Inr (modified, block')"
  shows "modified = block_matches toLowerCase toolId block
         \<and> block' = (if modified then overwrite_block prunedMessage block else block)"
proof -
  from assms obtain tr where tr: "get_prop block ''toolResult'' = Inr tr"
    by (auto simp: replace_block_def split: sum.splits)
  then have trv: "tr = opt_prop block ''toolResult''"
    using get_prop_Inr by blast
  show ?thesis
  proof (cases "truthy tr")
    case False
    then have "opt_prop tr ''toolUseId'' = JUndefined" by (rule not_truthy_opt_prop)
    with assms tr False trv show ?thesis
      by (simp add: replace_block_def block_matches_def)
  next
    case True
    from assms tr True obtain l where l: "lower_opt toLowerCase (opt_prop tr ''toolUseId'') = Inr l"
      by (auto simp: replace_block_def split: sum.splits)
    show ?thesis
    proof (cases "opt_prop tr ''toolUseId''")
      case (JStr s)
      then obtain tkvs where tk: "tr = JObj tkvs" using opt_prop_JStr_obj by blast
      with trv obtain bkvs where bk: "block = JObj bkvs"
        using opt_prop_JStr_obj [of block "''toolResult''"] by (cases block) simp_all
      from trv tk bk have og: "obj_get bkvs ''toolResult'' = JObj tkvs" by simp
      from JStr tk have tid: "obj_get tkvs ''toolUseId'' = JStr s" by simp
      from assms show ?thesis
        by (auto simp: replace_block_def block_matches_def overwrite_block_def spread_with_def
              bk og tid split: if_splits)
    qed (use assms tr True l trv in \<open>auto simp: replace_block_def block_matches_def\<close>)
  qed
qed

lemma replace_block_returns:
  "block_ok block \<Longrightarrow> \<exists>r. replace_block toLowerCase idl prunedMessage block = Inr r"
  by (cases "opt_prop (opt_prop block ''toolResult'') ''toolUseId''")
     (auto simp: block_ok_def replace_block_def get_prop_opt)

lemma map_blocks_result:
  "map_blocks (replace_block toLowerCase (toLowerCase toolId) prunedMessage) bs = Inr (modified, bs') \<Longrightarrow>
     modified = list_ex (block_matches toLowerCase toolId) bs
     \<and> bs' = map (\<lambda>b. if block_matches toLowerCase toolId b then overwrite_block prunedMessage b else b) bs"
proof (induction bs arbitrary: modified bs')
  case Nil
  then show ?case by simp
next
  case (Cons b bs)
  from Cons.prems obtain m1 b1 m2 bs2 where
    h: "replace_block toLowerCase (toLowerCase toolId) prunedMessage b = Inr (m1, b1)"
       "map_blocks (replace_block toLowerCase (toLowerCase toolId) prunedMessage) bs = Inr (m2, bs2)"
       "modified = (m1 \<or> m2)" "bs' = b1 # bs2"
    by (auto split: sum.splits prod.splits)
  from replace_block_result [OF h(1)] Cons.IH [OF h(2)] h(3,4) show ?case
    by auto
qed

lemma map_blocks_returns:
  "list_all block_ok bs \<Longrightarrow> \<exists>r. map_blocks (replace_block toLowerCase idl prunedMessage) bs = Inr r"
proof (induction bs)
  case Nil
  then show ?case by auto
next
  case (Cons b bs)
  then obtain r1 r2 where "replace_block toLowerCase idl prunedMessage b = Inr r1"
      "map_blocks (replace_block toLowerCase idl prunedMessage) bs = Inr r2"
    using replace_block_returns [of b toLowerCase idl prunedMessage] by auto
  then show ?case by (cases r1; cases r2) simp
qed

lemma user_blocks_role:
  "opt_prop m ''role'' \<noteq> JStr ''user'' \<Longrightarrow> user_blocks m = []"
  by (simp add: user_blocks_def)

lemma user_role_obj: "opt_prop m ''role'' = JStr ''user'' \<Longrightarrow> \<exists>kvs. m = JObj kvs"
  by (rule opt_prop_JStr_obj)

lemma replace_in_message_result:
  assumes "replace_in_message toLowerCase (toLowerCase toolId) prunedMessage m = Inr (modified, m')"
  shows "modified = list_ex (block_matches toLowerCase toolId) (user_blocks m)
         \<and> m' = message_after toLowerCase toolId prunedMessage m"
proof -
  from assms obtain role where "get_prop m ''role'' = Inr role"
    by (auto simp: replace_in_message_def split: sum.splits)
  then have role: "get_prop m ''role'' = Inr (opt_prop m ''role'')"
    using get_prop_Inr by blast
  show ?thesis
  proof (cases "opt_prop m ''role'' = JStr ''user''")
    case False
    with assms role show ?thesis
      by (simp add: replace_in_message_def message_after_def user_blocks_role)
  next
    case True
    then obtain kvs where m: "m = JObj kvs" using user_role_obj by blast
    show ?thesis
    proof (cases "opt_prop m ''content''")
      case (JArr blocks)
      then have ub: "user_blocks m = blocks" using True by (simp add: user_blocks_def)
      from assms role True JArr obtain mm nc where
        mb: "map_blocks (replace_block toLowerCase (toLowerCase toolId) prunedMessage) blocks = Inr (mm, nc)"
        by (auto simp: replace_in_message_def split: sum.splits)
      from map_blocks_result [OF mb] assms role True JArr mb ub m show ?thesis
        by (auto simp: replace_in_message_def message_after_def spread_with_def split: if_splits)
    qed (use assms role True in \<open>auto simp: replace_in_message_def message_after_def user_blocks_def\<close>)
  qed
qed

lemma replace_in_message_returns:
  "message_ok m \<Longrightarrow> \<exists>r. replace_in_message toLowerCase idl prunedMessage m = Inr r"
proof -
  assume ok: "message_ok m"
  then have role: "get_prop m ''role'' = Inr (opt_prop m ''role'')"
    by (simp add: message_ok_def get_prop_opt)
  show ?thesis
  proof (cases "opt_prop m ''role'' = JStr ''user''")
    case False
    with role show ?thesis by (auto simp: replace_in_message_def)
  next
    case True
    show ?thesis
    proof (cases "opt_prop m ''content''")
      case (JArr blocks)
      with ok True have "list_all block_ok blocks"
        by (simp add: message_ok_def user_blocks_def)
      then obtain r where "map_blocks (replace_block toLowerCase idl prunedMessage) blocks = Inr r"
        using map_blocks_returns by blast
      with role True JArr show ?thesis
        by (cases r) (auto simp: replace_in_message_def)
    qed (use role True in \<open>auto simp: replace_in_message_def\<close>)
  qed
qed

lemma replace_loop_result:
  "replace_loop toLowerCase (toLowerCase toolId) prunedMessage ms replaced = (Inr r, ms') \<Longrightarrow>
     r = (replaced \<or> list_ex (\<lambda>m. list_ex (block_matches toLowerCase toolId) (user_blocks m)) ms)
     \<and> ms' = map (message_after toLowerCase toolId prunedMessage) ms"
proof (induction ms arbitrary: replaced r ms')
  case Nil
  then show ?case by simp
next
  case (Cons m ms)
  from Cons.prems obtain modified m1 ms1 where
    h: "replace_in_message toLowerCase (toLowerCase toolId) prunedMessage m = Inr (modified, m1)"
       "replace_loop toLowerCase (toLowerCase toolId) prunedMessage ms (replaced \<or> modified) = (Inr r, ms1)"
       "ms' = m1 # ms1"
    by (auto split: sum.splits prod.splits)
  from replace_in_message_result [OF h(1)] Cons.IH [OF h(2)] h(3) show ?case
    by auto
qed

lemma replace_loop_returns:
  "list_all message_ok ms \<Longrightarrow> \<exists>r ms'. replace_loop toLowerCase idl prunedMessage ms replaced = (Inr r, ms')"
proof (induction ms arbitrary: replaced)
  case Nil
  then show ?case by simp
next
  case (Cons m ms)
  then obtain modified m1 where a: "replace_in_message toLowerCase idl prunedMessage m = Inr (modified, m1)"
    using replace_in_message_returns [of m toLowerCase idl prunedMessage] by auto
  from Cons obtain r ms1 where "replace_loop toLowerCase idl prunedMessage ms (replaced \<or> modified) = (Inr r, ms1)"
    by fastforce
  with a show ?case by simp
qed

lemma detect_body_obj: "detect body = Inr True \<Longrightarrow> \<exists>kvs. body = JObj kvs"
  by (cases body) (auto simp: detect_def)

lemma detect_body_with_messages:
  "detect body = Inr True \<Longrightarrow> detect (body_with_messages body data') = Inr True"
proof -
  assume d: "detect body = Inr True"
  then obtain kvs where "body = JObj kvs" using detect_body_obj by blast
  with d show ?thesis
    by (auto simp: detect_def body_with_messages_def obj_get_update)
qed

lemma block_matches_obj:
  "block_matches toLowerCase toolId b \<Longrightarrow>
     \<exists>bkvs tkvs. b = JObj bkvs \<and> obj_get bkvs ''toolResult'' = JObj tkvs \<and> ''toolResult'' \<in> fst ` set bkvs"
proof -
  assume m: "block_matches toLowerCase toolId b"
  then obtain s where s: "opt_prop (opt_prop b ''toolResult'') ''toolUseId'' = JStr s"
    by (auto simp: block_matches_def split: json.splits)
  then obtain tkvs where t: "opt_prop b ''toolResult'' = JObj tkvs"
    using opt_prop_JStr_obj by blast
  then have "opt_prop b ''toolResult'' \<noteq> JUndefined" by simp
  from opt_prop_defined [OF this] t show ?thesis by auto
qed

lemma overwrite_block_props:
  assumes "block_matches toLowerCase toolId b"
  shows "obj_keys (overwrite_block pm b) = obj_keys b"
    and "k \<noteq> ''toolResult'' \<Longrightarrow> opt_prop (overwrite_block pm b) k = opt_prop b k"
    and "opt_prop (opt_prop (overwrite_block pm b) ''toolResult'') k =
           (if k = ''content'' then JArr [JObj [(''text'', JStr pm)]]
            else opt_prop (opt_prop b ''toolResult'') k)"
proof -
  from block_matches_obj [OF assms] obtain bkvs tkvs where
    h: "b = JObj bkvs" "obj_get bkvs ''toolResult'' = JObj tkvs" "''toolResult'' \<in> fst ` set bkvs"
    by blast
  show "obj_keys (overwrite_block pm b) = obj_keys b"
    using h by (simp add: overwrite_block_def update_keys)
  show "k \<noteq> ''toolResult'' \<Longrightarrow> opt_prop (overwrite_block pm b) k = opt_prop b k"
    using h by (simp add: overwrite_block_def obj_get_update)
  show "opt_prop (opt_prop (overwrite_block pm b) ''toolResult'') k =
           (if k = ''content'' then JArr [JObj [(''text'', JStr pm)]]
            else opt_prop (opt_prop b ''toolResult'') k)"
    using h by (simp add: overwrite_block_def obj_get_update)
qed

lemma user_blocks_nonempty:
  "user_blocks m \<noteq> [] \<Longrightarrow>
     \<exists>kvs. m = JObj kvs \<and> obj_get kvs ''content'' = JArr (user_blocks m) \<and> ''content'' \<in> fst ` set kvs"
proof -
  assume ne: "user_blocks m \<noteq> []"
  then have role: "opt_prop m ''role'' = JStr ''user''"
    by (auto simp: user_blocks_def split: if_splits)
  with ne have c: "opt_prop m ''content'' = JArr (user_blocks m)"
    by (auto simp: user_blocks_def split: json.splits)
  then have "opt_prop m ''content'' \<noteq> JUndefined" by simp
  from opt_prop_defined [OF this] c show ?thesis by auto
qed

lemma message_after_props:
  assumes "list_ex (block_matches toLowerCase toolId) (user_blocks m)"
  shows "obj_keys (message_after toLowerCase toolId pm m) = obj_keys m"
    and "opt_prop (message_after toLowerCase toolId pm m) k =
           (if k = ''content''
            then JArr (map (\<lambda>b. if block_matches toLowerCase toolId b then overwrite_block pm b else b) (user_blocks m))
            else opt_prop m k)"
proof -
  from assms have "user_blocks m \<noteq> []" by auto
  from user_blocks_nonempty [OF this] obtain kvs where
    h: "m = JObj kvs" "obj_get kvs ''content'' = JArr (user_blocks m)" "''content'' \<in> fst ` set kvs"
    by blast
  show "obj_keys (message_after toLowerCase toolId pm m) = obj_keys m"
    using assms h(1,3) by (simp add: message_after_def update_keys)
  show "opt_prop (message_after toLowerCase toolId pm m) k =
           (if k = ''content''
            then JArr (map (\<lambda>b. if block_matches toLowerCase toolId b then overwrite_block pm b else b) (user_blocks m))
            else opt_prop m k)"
    using assms h(1) by (simp add: message_after_def obj_get_update)
qed

lemma toLowerCase_examples:
  "ascii_toLowerCase ''a'' = ''a''" "ascii_toLowerCase ''aBc'' = ''abc''"
  "ascii_toLowerCase ''ABC'' = ''abc''"
  "ascii_toLowerCase ''Call_1'' = ''call_1''" "ascii_toLowerCase ''call_1'' = ''call_1''"
  by code_simp+

text \<open>
  Claim C4, as stated: for every body that \<^verbatim>\<open>detect\<close> accepts, every \<^verbatim>\<open>toolResult\<close> block
  whose identifier equals the given one up to case is overwritten, and the call returns
  true exactly when there is such a block. \<^verbatim>\<open>detect\<close> looks at three top-level fields
  only: it accepts a body whose matching block sits in an assistant message, which the
  loop does not visit (it returns false and changes nothing), and a body whose
  \<^verbatim>\<open>toolUseId\<close> is a number, on which \<^verbatim>\<open>toLowerCase\<close> raises.
\<close>

theorem C4_counterexample:
  "detect (ex_body [ex_message ''assistant'' (JArr [ex_result_block (JStr ''a'')])]) = Inr True
   \<and> block_matches ascii_toLowerCase ''a'' (ex_result_block (JStr ''a''))
   \<and> replaceToolOutput ascii_toLowerCase [ex_message ''assistant'' (JArr [ex_result_block (JStr ''a'')])] ''a'' ''P''
       = (Inr False, [ex_message ''assistant'' (JArr [ex_result_block (JStr ''a'')])])
   \<and> detect (ex_body [ex_message ''user'' (JArr [ex_result_block (JNum 5)])]) = Inr True
   \<and> fst (replaceToolOutput ascii_toLowerCase [ex_message ''user'' (JArr [ex_result_block (JNum 5)])] ''a'' ''P'')
       = Inl TypeError"
  by (simp add: detect_def ex_body_def ex_message_def ex_result_block_def obj_get_def
        block_matches_def replaceToolOutput_def replace_in_message_def replace_block_def
        toLowerCase_examples)

text \<open>
  Claim C4, amended: for a body that \<^verbatim>\<open>detect\<close> accepts, with no message and no block of
  a user message \<^verbatim>\<open>null\<close> or \<^verbatim>\<open>undefined\<close> and every \<^verbatim>\<open>toolResult.toolUseId\<close> a string or
  absent, \<^verbatim>\<open>replaceToolOutput\<close> returns; it returns true exactly when a user message with
  array content holds a block whose \<^verbatim>\<open>toolUseId\<close> equals the identifier up to case; the
  messages afterwards are as many, a message without such a block is unchanged, a
  message with one keeps every field but \<^verbatim>\<open>content\<close>, whose matching blocks are
  overwritten and whose other blocks are kept; an overwritten block keeps its property
  names and every field but \<^verbatim>\<open>toolResult\<close>, whose \<^verbatim>\<open>content\<close> is the placeholder text block
  and whose other fields are kept; and the body still satisfies \<^verbatim>\<open>detect\<close>.
\<close>

theorem C4_replaceToolOutput:
  assumes "detect body = Inr True" and "getDataArray body = Inr (JArr data)"
      and "list_all message_ok data"
  shows "replaceToolOutput toLowerCase data toolId pm =
           (Inr (list_ex (\<lambda>m. list_ex (block_matches toLowerCase toolId) (user_blocks m)) data),
            map (message_after toLowerCase toolId pm) data)
       \<and> length (snd (replaceToolOutput toLowerCase data toolId pm)) = length data
       \<and> detect (body_with_messages body (snd (replaceToolOutput toLowerCase data toolId pm))) = Inr True
       \<and> (\<forall>m. \<not> list_ex (block_matches toLowerCase toolId) (user_blocks m) \<longrightarrow> message_after toLowerCase toolId pm m = m)
       \<and> (\<forall>m k. list_ex (block_matches toLowerCase toolId) (user_blocks m) \<longrightarrow>
              obj_keys (message_after toLowerCase toolId pm m) = obj_keys m
            \<and> opt_prop (message_after toLowerCase toolId pm m) k =
                (if k = ''content''
                 then JArr (map (\<lambda>b. if block_matches toLowerCase toolId b then overwrite_block pm b else b)
                                (user_blocks m))
                 else opt_prop m k))
       \<and> (\<forall>b k. block_matches toLowerCase toolId b \<longrightarrow>
              obj_keys (overwrite_block pm b) = obj_keys b
            \<and> (k \<noteq> ''toolResult'' \<longrightarrow> opt_prop (overwrite_block pm b) k = opt_prop b k)
            \<and> opt_prop (opt_prop (overwrite_block pm b) ''toolResult'') k =
                (if k = ''content'' then JArr [JObj [(''text'', JStr pm)]]
                 else opt_prop (opt_prop b ''toolResult'') k))"
proof -
  from replace_loop_returns [OF assms(3)] obtain r ms' where
    ret: "replace_loop toLowerCase (toLowerCase toolId) pm data False = (Inr r, ms')"
    by blast
  from replace_loop_result [OF ret] have
    res: "replaceToolOutput toLowerCase data toolId pm =
           (Inr (list_ex (\<lambda>m. list_ex (block_matches toLowerCase toolId) (user_blocks m)) data),
            map (message_after toLowerCase toolId pm) data)"
    using ret by (simp add: replaceToolOutput_def)
  have len: "length (snd (replaceToolOutput toLowerCase data toolId pm)) = length data"
    by (simp add: res)
  have det: "detect (body_with_messages body (snd (replaceToolOutput toLowerCase data toolId pm))) = Inr True"
    using assms(1) by (rule detect_body_with_messages)
  have same: "\<forall>m. \<not> list_ex (block_matches toLowerCase toolId) (user_blocks m) \<longrightarrow> message_after toLowerCase toolId pm m = m"
    by (simp add: message_after_def)
  show ?thesis
    using res len det same
      message_after_props [where toLowerCase = toLowerCase and toolId = toolId and pm = pm]
      overwrite_block_props [where toLowerCase = toLowerCase and toolId = toolId and pm = pm]
    by blast
qed

theorem C4_replaceToolOutput_witness:
  "replaceToolOutput ascii_toLowerCase
     [ex_message ''user'' (JArr [ex_result_block (JStr ''ABC''), JObj [(''text'', JStr ''hi'')]]),
      ex_message ''assistant'' (JStr ''ok'')] ''aBc'' ''P''
   = (Inr True,
      [ex_message ''user''
         (JArr [JObj [(''toolResult'',
                       JObj [(''toolUseId'', JStr ''ABC''), (''content'', JArr [JObj [(''text'', JStr ''P'')]]),
                             (''status'', JStr ''success'')])],
                JObj [(''text'', JStr ''hi'')]]),
       ex_message ''assistant'' (JStr ''ok'')])"
proof -
  let ?data = "[ex_message ''user'' (JArr [ex_result_block (JStr ''ABC''), JObj [(''text'', JStr ''hi'')]]),
      ex_message ''assistant'' (JStr ''ok'')]"
  have a: "detect (ex_body ?data) = Inr True"
    by (simp add: detect_def ex_body_def obj_get_def)
  have b: "getDataArray (ex_body ?data) = Inr (JArr ?data)"
    by (simp add: getDataArray_def ex_body_def obj_get_def)
  have c: "list_all message_ok ?data"
    by (simp add: message_ok_def block_ok_def user_blocks_def ex_message_def ex_result_block_def obj_get_def)
  have d: "list_ex (\<lambda>m. list_ex (block_matches ascii_toLowerCase ''aBc'') (user_blocks m)) ?data"
    by (simp add: block_matches_def user_blocks_def ex_message_def ex_result_block_def obj_get_def
          toLowerCase_examples)
  have e: "map (message_after ascii_toLowerCase ''aBc'' ''P'') ?data =
      [ex_message ''user''
         (JArr [JObj [(''toolResult'',
                       JObj [(''toolUseId'', JStr ''ABC''), (''content'', JArr [JObj [(''text'', JStr ''P'')]]),
                             (''status'', JStr ''success'')])],
                JObj [(''text'', JStr ''hi'')]]),
       ex_message ''assistant'' (JStr ''ok'')]"
    by (simp add: message_after_def overwrite_block_def block_matches_def user_blocks_def
          ex_message_def ex_result_block_def obj_get_def toLowerCase_examples)
  show ?thesis
    using C4_replaceToolOutput [OF a b c, where toolId = "''aBc''" and pm = "''P''"
        and toLowerCase = "ascii_toLowerCase"] d e
    by simp
qed

section \<open>Properties of the identifier handling\<close>




















section \<open>Properties of injectSynth\<close>

lemma sublist_self_suffix: "sublist i (c @ b @ i)"
  by (metis sublist_appendI append_assoc append_Nil2)

lemma from_end_modified:
  assumes nudge: "\<not> suffix (blank_line @ instruction) nudgeText"
  shows "injectSynth_from_end ms instruction nudgeText = (r1, ms1) \<Longrightarrow> ms1 \<noteq> ms \<Longrightarrow>
           r1 = Inr True \<and> injectSynth_from_end ms1 instruction nudgeText = (Inr False, ms1)"
proof (induction ms arbitrary: r1 ms1)
  case Nil
  then show ?case by simp
next
  case (Cons msg older)
  show ?case
  proof (cases "get_prop msg ''role''")
    case (Inl e)
    with Cons.prems show ?thesis by simp
  next
    case (Inr role)
    then have role: "get_prop msg ''role'' = Inr (opt_prop msg ''role'')"
      using get_prop_Inr by blast
    obtain r' older' where rec: "injectSynth_from_end older instruction nudgeText = (r', older')"
      by (cases "injectSynth_from_end older instruction nudgeText") blast
    have skip: "r1 = Inr True \<and> injectSynth_from_end ms1 instruction nudgeText = (Inr False, ms1)"
      if run: "injectSynth_from_end (msg # older) instruction nudgeText = (r', msg # older')"
        and again: "\<And>x. injectSynth_from_end (msg # x) instruction nudgeText
                      = (case injectSynth_from_end x instruction nudgeText of (r, y) \<Rightarrow> (r, msg # y))"
    proof -
      from run Cons.prems(1) have eq: "r1 = r'" "ms1 = msg # older'" by simp_all
      with Cons.prems(2) have "older' \<noteq> older" by simp
      from Cons.IH [OF rec this] eq again [of older'] show ?thesis by simp
    qed
    show ?thesis
    proof (cases "opt_prop msg ''role'' = JStr ''user''")
      case False
      then have again: "\<And>x. injectSynth_from_end (msg # x) instruction nudgeText
                      = (case injectSynth_from_end x instruction nudgeText of (r, y) \<Rightarrow> (r, msg # y))"
        using role by simp
      from again [of older] rec
      have run: "injectSynth_from_end (msg # older) instruction nudgeText = (r', msg # older')"
        by simp
      show ?thesis by (rule skip [OF run again])
    next
      case True
      then obtain kvs where m: "msg = JObj kvs" using user_role_obj by blast
      have ur: "obj_get kvs ''role'' = JStr ''user''" using True m by simp
      show ?thesis
      proof (cases "obj_get kvs ''content''")
        case (JStr c)
        show ?thesis
        proof (cases "c = nudgeText")
          case True
          then have again: "\<And>x. injectSynth_from_end (msg # x) instruction nudgeText
                      = (case injectSynth_from_end x instruction nudgeText of (r, y) \<Rightarrow> (r, msg # y))"
            using m ur JStr by (simp add: isNudgeMessage_def)
          from again [of older] rec
      have run: "injectSynth_from_end (msg # older) instruction nudgeText = (r', msg # older')"
        by simp
      show ?thesis by (rule skip [OF run again])
        next
          case False
          show ?thesis
          proof (cases "sublist instruction c")
            case True
            with Cons.prems m ur JStr False show ?thesis
              by (simp add: isNudgeMessage_def)
          next
            case nosub: False
            have ne: "c @ blank_line @ instruction \<noteq> nudgeText"
              using nudge by (auto simp: suffix_def)
            from Cons.prems(1) m ur JStr False nosub have
              "r1 = Inr True"
              "ms1 = JObj (AList.update ''content'' (JStr (c @ blank_line @ instruction)) kvs) # older"
              by (simp_all add: isNudgeMessage_def)
            then show ?thesis
              using ur ne by (simp add: isNudgeMessage_def obj_get_update sublist_self_suffix)
          qed
        qed
      next
        case (JArr ps)
        show ?thesis
        proof (cases "list_ex (part_has_instruction instruction) ps")
          case True
          with Cons.prems m ur JArr show ?thesis
            by (simp add: isNudgeMessage_def)
        next
          case False
          have has: "part_has_instruction instruction (JObj [(''type'', JStr ''text''), (''text'', JStr instruction)])"
            by (simp add: part_has_instruction_def obj_get_def)
          from Cons.prems(1) m ur JArr False have
            "r1 = Inr True"
            "ms1 = JObj (AList.update ''content''
                     (JArr (ps @ [JObj [(''type'', JStr ''text''), (''text'', JStr instruction)]])) kvs) # older"
            by (simp_all add: isNudgeMessage_def)
          then show ?thesis
            using ur has by (simp add: isNudgeMessage_def obj_get_update)
        qed
      qed (use Cons.prems m ur in \<open>simp_all add: isNudgeMessage_def\<close>)
    qed
  qed
qed

lemma from_end_target:
  assumes "list_all (passed_over nudgeText) skipped" and "is_target nudgeText msg"
      and "opt_prop msg ''content'' = JStr c"
  shows "injectSynth_from_end (skipped @ msg # older) instruction nudgeText =
           (if sublist instruction c then (Inr False, skipped @ msg # older)
            else (Inr True,
                  skipped @ set_prop msg ''content'' (JStr (c @ blank_line @ instruction)) # older))"
  using assms(1)
proof (induction skipped)
  case Nil
  from assms(2) have role: "opt_prop msg ''role'' = JStr ''user''"
    by (simp add: is_target_def)
  then obtain kvs where "msg = JObj kvs"
    using user_role_obj by blast
  with role have m: "msg = JObj kvs" "obj_get kvs ''role'' = JStr ''user''"
    by simp_all
  with assms(2,3) show ?case
    by (simp add: is_target_def isNudgeMessage_def)
next
  case (Cons x skipped)
  then have x: "get_prop x ''role'' = Inr (opt_prop x ''role'')"
    by (simp add: passed_over_def get_prop_opt)
  show ?case
  proof (cases "opt_prop x ''role'' = JStr ''user''")
    case False
    with x Cons show ?thesis by simp
  next
    case True
    then obtain kvs where k: "x = JObj kvs" using user_role_obj by blast
    from True Cons.prems have "opt_prop x ''content'' = JStr nudgeText"
      by (simp add: passed_over_def is_target_def)
    with k have "isNudgeMessage x nudgeText = Inr True"
      by (simp add: isNudgeMessage_def)
    with x True Cons show ?thesis by simp
  qed
qed

lemma from_end_skip:
  "list_all (passed_over nudgeText) skipped \<Longrightarrow>
     injectSynth_from_end (skipped @ rest) instruction nudgeText =
       (case injectSynth_from_end rest instruction nudgeText of (r, y) \<Rightarrow> (r, skipped @ y))"
proof (induction skipped)
  case Nil
  then show ?case by simp
next
  case (Cons x skipped)
  then have x: "get_prop x ''role'' = Inr (opt_prop x ''role'')"
    by (simp add: passed_over_def get_prop_opt)
  show ?case
  proof (cases "opt_prop x ''role'' = JStr ''user''")
    case False
    with x Cons show ?thesis by (simp split: prod.splits)
  next
    case True
    then obtain kvs where k: "x = JObj kvs" using user_role_obj by blast
    from True Cons.prems have "opt_prop x ''content'' = JStr nudgeText"
      by (simp add: passed_over_def is_target_def)
    with k have "isNudgeMessage x nudgeText = Inr True"
      by (simp add: isNudgeMessage_def)
    with x True Cons show ?thesis by (simp split: prod.splits)
  qed
qed

lemma from_end_target_array:
  assumes "list_all (passed_over nudgeText) skipped" and "is_target nudgeText msg"
      and "opt_prop msg ''content'' = JArr ps"
  shows "injectSynth_from_end (skipped @ msg # older) instruction nudgeText =
           (if list_ex (part_has_instruction instruction) ps then (Inr False, skipped @ msg # older)
            else (Inr True,
                  skipped @ set_prop msg ''content''
                    (JArr (ps @ [JObj [(''type'', JStr ''text''), (''text'', JStr instruction)]])) # older))"
proof -
  from assms(2) have role: "opt_prop msg ''role'' = JStr ''user''"
    by (simp add: is_target_def)
  then obtain kvs where "msg = JObj kvs"
    using user_role_obj by blast
  with role have m: "msg = JObj kvs" "obj_get kvs ''role'' = JStr ''user''"
    by simp_all
  with assms(3) have "injectSynth_from_end (msg # older) instruction nudgeText =
           (if list_ex (part_has_instruction instruction) ps then (Inr False, msg # older)
            else (Inr True,
                  set_prop msg ''content''
                    (JArr (ps @ [JObj [(''type'', JStr ''text''), (''text'', JStr instruction)]])) # older))"
    by (simp add: isNudgeMessage_def)
  then show ?thesis
    by (simp add: from_end_skip [OF assms(1)])
qed

lemma from_end_no_target:
  "list_all (passed_over nudgeText) skipped \<Longrightarrow>
     injectSynth_from_end skipped instruction nudgeText = (Inr False, skipped)"
  using from_end_skip [of nudgeText skipped "[]" instruction] by simp

text \<open>
  Claim C7, as stated: for every message sequence, instruction and nudge text, a second
  run of \<^verbatim>\<open>injectSynth\<close> returns false and changes nothing. When the nudge text is the
  content that the first run produced, the second run takes that message for a nudge,
  goes on to the user message before it and changes that one too; and for a user message
  whose content is neither a string nor an array both runs return true.
\<close>

theorem C7_counterexample:
  "injectSynth [ex_message ''user'' (JStr ''a''), ex_message ''user'' (JStr ''b'')]
       ''i'' (''b'' @ blank_line @ ''i'')
     = (Inr True, [ex_message ''user'' (JStr ''a''), ex_message ''user'' (JStr (''b'' @ blank_line @ ''i''))])
   \<and> injectSynth [ex_message ''user'' (JStr ''a''), ex_message ''user'' (JStr (''b'' @ blank_line @ ''i''))]
       ''i'' (''b'' @ blank_line @ ''i'')
     = (Inr True, [ex_message ''user'' (JStr (''a'' @ blank_line @ ''i'')),
                   ex_message ''user'' (JStr (''b'' @ blank_line @ ''i''))])
   \<and> injectSynth [JObj [(''role'', JStr ''user'')]] ''i'' ''n''
     = (Inr True, [JObj [(''role'', JStr ''user'')]])"
  by (simp add: injectSynth_def ex_message_def isNudgeMessage_def obj_get_def blank_line_def
        sublist_code prefix_code)

text \<open>
  Claim C7, amended: let the target be the most recent user message whose content is
  not exactly the nudge text. When its content is a string, \<^verbatim>\<open>injectSynth\<close> returns false
  and changes nothing if the string contains the instruction, and otherwise appends a
  blank line and the instruction to it and returns true. When its content is an array,
  it returns false and changes nothing if a text part of the array contains the
  instruction, and otherwise appends a text part holding the instruction and returns
  true. With no target it returns false and changes nothing; a run that returns false
  changes nothing. When the nudge text does not end with a blank line followed by the
  instruction, a second run with the same arguments leaves the sequence as the first run
  left it, and returns false if the first run changed the sequence or returned false.
\<close>

theorem C7_injectSynth_twice:
  assumes "\<not> suffix (blank_line @ instruction) nudgeText"
      and "injectSynth messages instruction nudgeText = (r1, m1)"
  shows "(\<exists>r2. injectSynth m1 instruction nudgeText = (r2, m1)
            \<and> (m1 \<noteq> messages \<longrightarrow> r1 = Inr True \<and> r2 = Inr False)
            \<and> (r1 = Inr False \<longrightarrow> r2 = Inr False))
         \<and> (r1 = Inr False \<longrightarrow> m1 = messages)
         \<and> (\<forall>before msg after c.
               messages = before @ msg # after \<and> list_all (passed_over nudgeText) after
               \<and> is_target nudgeText msg \<and> opt_prop msg ''content'' = JStr c \<longrightarrow>
               (r1, m1) =
                 (if sublist instruction c then (Inr False, messages)
                  else (Inr True,
                        before @ set_prop msg ''content'' (JStr (c @ blank_line @ instruction)) # after)))
         \<and> (\<forall>before msg after ps.
               messages = before @ msg # after \<and> list_all (passed_over nudgeText) after
               \<and> is_target nudgeText msg \<and> opt_prop msg ''content'' = JArr ps \<longrightarrow>
               (r1, m1) =
                 (if list_ex (part_has_instruction instruction) ps then (Inr False, messages)
                  else (Inr True,
                        before @ set_prop msg ''content''
                          (JArr (ps @ [JObj [(''type'', JStr ''text''), (''text'', JStr instruction)]]))
                        # after)))
         \<and> (list_all (passed_over nudgeText) messages \<longrightarrow> (r1, m1) = (Inr False, messages))"
proof -
  obtain ms1 where fe: "injectSynth_from_end (rev messages) instruction nudgeText = (r1, ms1)"
      and m1: "m1 = rev ms1"
    using assms(2) by (auto simp: injectSynth_def split: prod.splits)
  have twice: "\<exists>r2. injectSynth m1 instruction nudgeText = (r2, m1)
            \<and> (m1 \<noteq> messages \<longrightarrow> r1 = Inr True \<and> r2 = Inr False)
            \<and> (m1 = messages \<longrightarrow> r2 = r1)"
  proof (cases "ms1 = rev messages")
    case True
    then have "m1 = messages" using m1 by simp
    with assms(2) show ?thesis by simp
  next
    case False
    from from_end_modified [OF assms(1) fe False] have
      "r1 = Inr True" "injectSynth_from_end ms1 instruction nudgeText = (Inr False, ms1)"
      by simp_all
    moreover have "m1 \<noteq> messages"
      using False m1 by auto
    ultimately show ?thesis
      using m1 by (simp add: injectSynth_def)
  qed
  then have twice': "\<exists>r2. injectSynth m1 instruction nudgeText = (r2, m1)
            \<and> (m1 \<noteq> messages \<longrightarrow> r1 = Inr True \<and> r2 = Inr False)
            \<and> (r1 = Inr False \<longrightarrow> r2 = Inr False)"
    by auto
  have unchanged: "r1 = Inr False \<longrightarrow> m1 = messages"
    using twice by auto
  have target: "(r1, m1) =
                 (if sublist instruction c then (Inr False, messages)
                  else (Inr True,
                        before @ set_prop msg ''content'' (JStr (c @ blank_line @ instruction)) # after))"
    if h: "messages = before @ msg # after \<and> list_all (passed_over nudgeText) after
               \<and> is_target nudgeText msg \<and> opt_prop msg ''content'' = JStr c"
    for before msg after c
  proof -
    have "list_all (passed_over nudgeText) (rev after)"
      using h by (simp add: list_all_iff)
    from from_end_target [OF this, of msg c "rev before" instruction] h
    have "injectSynth messages instruction nudgeText =
           (if sublist instruction c then (Inr False, messages)
            else (Inr True,
                  before @ set_prop msg ''content'' (JStr (c @ blank_line @ instruction)) # after))"
      by (simp add: injectSynth_def)
    with assms(2) show ?thesis by simp
  qed
  have target_array: "(r1, m1) =
                 (if list_ex (part_has_instruction instruction) ps then (Inr False, messages)
                  else (Inr True,
                        before @ set_prop msg ''content''
                          (JArr (ps @ [JObj [(''type'', JStr ''text''), (''text'', JStr instruction)]]))
                        # after))"
    if h: "messages = before @ msg # after \<and> list_all (passed_over nudgeText) after
               \<and> is_target nudgeText msg \<and> opt_prop msg ''content'' = JArr ps"
    for before msg after ps
  proof -
    have "list_all (passed_over nudgeText) (rev after)"
      using h by (simp add: list_all_iff)
    from from_end_target_array [OF this, of msg ps "rev before" instruction] h
    have "injectSynth messages instruction nudgeText =
           (if list_ex (part_has_instruction instruction) ps then (Inr False, messages)
            else (Inr True,
                  before @ set_prop msg ''content''
                    (JArr (ps @ [JObj [(''type'', JStr ''text''), (''text'', JStr instruction)]]))
                  # after))"
      by (simp add: injectSynth_def)
    with assms(2) show ?thesis by simp
  qed
  have none: "(r1, m1) = (Inr False, messages)" if h: "list_all (passed_over nudgeText) messages"
  proof -
    have "list_all (passed_over nudgeText) (rev messages)"
      using h by (simp add: list_all_iff)
    from from_end_no_target [OF this, of instruction] assms(2) show ?thesis
      by (simp add: injectSynth_def)
  qed
  have t1: "\<forall>before msg after c.
               messages = before @ msg # after \<and> list_all (passed_over nudgeText) after
               \<and> is_target nudgeText msg \<and> opt_prop msg ''content'' = JStr c \<longrightarrow>
               (r1, m1) =
                 (if sublist instruction c then (Inr False, messages)
                  else (Inr True,
                        before @ set_prop msg ''content'' (JStr (c @ blank_line @ instruction)) # after))"
    using target by blast
  have t2: "\<forall>before msg after ps.
               messages = before @ msg # after \<and> list_all (passed_over nudgeText) after
               \<and> is_target nudgeText msg \<and> opt_prop msg ''content'' = JArr ps \<longrightarrow>
               (r1, m1) =
                 (if list_ex (part_has_instruction instruction) ps then (Inr False, messages)
                  else (Inr True,
                        before @ set_prop msg ''content''
                          (JArr (ps @ [JObj [(''type'', JStr ''text''), (''text'', JStr instruction)]]))
                        # after))"
    using target_array by blast
  have t3: "list_all (passed_over nudgeText) messages \<longrightarrow> (r1, m1) = (Inr False, messages)"
    using none by blast
  show ?thesis
    using twice' unchanged t1 t2 t3 by (intro conjI)
qed


theorem C7_injectSynth_twice_witness:
  "injectSynth [ex_message ''user'' (JStr ''hello''), ex_message ''assistant'' (JStr ''ok''),
                ex_message ''user'' (JStr ''n'')] ''i'' ''n''
     = (Inr True, [ex_message ''user'' (JStr (''hello'' @ blank_line @ ''i'')),
                   ex_message ''assistant'' (JStr ''ok''), ex_message ''user'' (JStr ''n'')])
   \<and> injectSynth [ex_message ''user'' (JStr (''hello'' @ blank_line @ ''i'')),
                   ex_message ''assistant'' (JStr ''ok''), ex_message ''user'' (JStr ''n'')] ''i'' ''n''
     = (Inr False, [ex_message ''user'' (JStr (''hello'' @ blank_line @ ''i'')),
                   ex_message ''assistant'' (JStr ''ok''), ex_message ''user'' (JStr ''n'')])
   \<and> injectSynth [ex_message ''user'' (JArr [JObj [(''text'', JStr ''hi'')]])] ''i'' ''n''
     = (Inr True, [ex_message ''user''
                     (JArr [JObj [(''text'', JStr ''hi'')],
                            JObj [(''type'', JStr ''text''), (''text'', JStr ''i'')]])])
   \<and> injectSynth [ex_message ''user''
                     (JArr [JObj [(''text'', JStr ''hi'')],
                            JObj [(''type'', JStr ''text''), (''text'', JStr ''i'')]])] ''i'' ''n''
     = (Inr False, [ex_message ''user''
                     (JArr [JObj [(''text'', JStr ''hi'')],
                            JObj [(''type'', JStr ''text''), (''text'', JStr ''i'')]])])"
proof -
  let ?m = "[ex_message ''user'' (JStr ''hello''), ex_message ''assistant'' (JStr ''ok''),
                ex_message ''user'' (JStr ''n'')]"
  let ?m1 = "[ex_message ''user'' (JStr (''hello'' @ blank_line @ ''i'')),
                   ex_message ''assistant'' (JStr ''ok''), ex_message ''user'' (JStr ''n'')]"
  let ?a = "[ex_message ''user'' (JArr [JObj [(''text'', JStr ''hi'')]])]"
  let ?a1 = "[ex_message ''user''
                     (JArr [JObj [(''text'', JStr ''hi'')],
                            JObj [(''type'', JStr ''text''), (''text'', JStr ''i'')]])]"
  have a: "\<not> suffix (blank_line @ ''i'') ''n''"
    by (simp add: blank_line_def suffix_def)
  have b: "injectSynth ?m ''i'' ''n'' = (Inr True, ?m1)"
    by (simp add: injectSynth_def ex_message_def isNudgeMessage_def obj_get_def blank_line_def
          sublist_code prefix_code)
  have c: "?m1 \<noteq> ?m"
    by (simp add: ex_message_def)
  from C7_injectSynth_twice [OF a b] c have s2: "injectSynth ?m1 ''i'' ''n'' = (Inr False, ?m1)"
    by auto
  have d: "injectSynth ?a ''i'' ''n'' = (Inr True, ?a1)"
    by (simp add: injectSynth_def ex_message_def isNudgeMessage_def obj_get_def
          part_has_instruction_def)
  have e: "?a1 \<noteq> ?a"
    by (simp add: ex_message_def)
  from C7_injectSynth_twice [OF a d] e have a2: "injectSynth ?a1 ''i'' ''n'' = (Inr False, ?a1)"
    by auto
  from b s2 d a2 show ?thesis by (intro conjI)
qed

section \<open>Properties of the janitor\<close>

subsection \<open>The scan never raises\<close>

lemma scan_part_ok:
  "scan_ok sc \<Longrightarrow> \<exists>sc'. scan_part sc part = Inr sc' \<and> scan_ok sc'
      \<and> toolCallIds sc' = toolCallIds sc @ part_ids part"
  by (cases part)
     (auto simp: scan_ok_def Let_def split: option.splits ToolStatus.splits if_splits)

lemma scan_parts_ok:
  "scan_ok sc \<Longrightarrow> \<exists>sc'. scan_parts sc ps = Inr sc' \<and> scan_ok sc'
      \<and> toolCallIds sc' = toolCallIds sc @ concat (map part_ids ps)"
proof (induction ps arbitrary: sc)
  case Nil
  then show ?case by simp
next
  case (Cons part ps)
  from scan_part_ok [OF Cons.prems, of part] obtain sc1 where
    s1: "scan_part sc part = Inr sc1" "scan_ok sc1" "toolCallIds sc1 = toolCallIds sc @ part_ids part"
    by blast
  from Cons.IH [OF s1(2)] obtain sc2 where
    s2: "scan_parts sc1 ps = Inr sc2" "scan_ok sc2"
        "toolCallIds sc2 = toolCallIds sc1 @ concat (map part_ids ps)"
    by blast
  show ?case using s1 s2 by simp
qed

lemma scan_messages_ok:
  "scan_ok sc \<Longrightarrow> \<exists>sc'. scan_messages sc ms = Inr sc' \<and> scan_ok sc'
      \<and> toolCallIds sc' = toolCallIds sc @ history_ids ms"
proof (induction ms arbitrary: sc)
  case Nil
  then show ?case by (simp add: history_ids_def)
next
  case (Cons msg ms)
  from scan_parts_ok [OF Cons.prems, of "parts msg"] obtain sc1 where
    s1: "scan_parts sc (parts msg) = Inr sc1" "scan_ok sc1"
        "toolCallIds sc1 = toolCallIds sc @ concat (map part_ids (parts msg))"
    by blast
  from Cons.IH [OF s1(2)] obtain sc2 where
    s2: "scan_messages sc1 ms = Inr sc2" "scan_ok sc2"
        "toolCallIds sc2 = toolCallIds sc1 @ history_ids ms"
    by blast
  show ?case using s1 s2 by (simp add: history_ids_def)
qed

lemma scan_history:
  "\<exists>sc. scan_messages scan_init ms = Inr sc \<and> toolCallIds sc = history_ids ms"
  using scan_messages_ok [of scan_init ms] by (auto simp: scan_ok_def scan_init_def)

subsection \<open>Insertion-ordered sets and batch expansion\<close>

lemma set_foldl_set_add: "set (foldl set_add s xs) = set s \<union> set xs"
  by (induction xs arbitrary: s) (auto simp: set_add_def)

lemma distinct_foldl_set_add: "distinct s \<Longrightarrow> distinct (foldl set_add s xs)"
  by (induction xs arbitrary: s) (auto simp: set_add_def)

lemma set_expand_ids:
  "set (expand_ids bm acc ids) =
     set acc \<union> set ids \<union> \<Union> {set children | p children. p \<in> set ids \<and> bm p = Some children}"
proof (induction ids arbitrary: acc)
  case Nil
  then show ?case by simp
next
  case (Cons p ids)
  show ?case
  proof (cases "bm p")
    case None
    then show ?thesis using Cons.IH [of "set_add acc p"]
      by (auto simp: set_add_def)
  next
    case (Some ch)
    then show ?thesis using Cons.IH [of "foldl set_add (set_add acc p) ch"]
      by (auto simp: set_add_def set_foldl_set_add)
  qed
qed

subsection \<open>The sample history\<close>

lemma ex_scan:
  "scan_messages scan_init ex_history =
     Inr \<lparr>toolCallIds = [''b1'', ''prt_1'', ''prt_2'', ''c3'', ''b2'', ''prt_9''],
          toolOutputs = [''b1'' \<mapsto> ''ok'', ''prt_1'' \<mapsto> ''12345678'', ''prt_2'' \<mapsto> ''1234'',
                         ''b2'' \<mapsto> ''ok'', ''prt_9'' \<mapsto> ''xy''],
          batchToolChildren = [''b1'' \<mapsto> [''prt_1'', ''prt_2''], ''b2'' \<mapsto> [''prt_9'']],
          currentBatchId = Some ''b2''\<rparr>"
  by (simp add: ex_history_def ex_tool_def scan_init_def Let_def fun_upd_twist)

lemma ex_history_length: "length ex_history = 3"
  by (simp add: ex_history_def)

lemma ex_history_ids: "history_ids ex_history = [''b1'', ''prt_1'', ''prt_2'', ''c3'', ''b2'', ''prt_9'']"
  by (simp add: history_ids_def ex_history_def ex_tool_def)

lemma ex_expand:
  "expand_ids [''b1'' \<mapsto> [''prt_1'', ''prt_2''], ''b2'' \<mapsto> [''prt_9'']] [] [''b1'']
     = [''b1'', ''prt_1'', ''prt_2'']"
  by (simp add: set_add_def)

lemma ex_unpruned_ids: "history_ids ex_history = ex_unpruned"
  by (simp add: ex_history_ids ex_unpruned_def)

subsection \<open>The four ways a run ends\<close>

lemma janitor_fetch_fails:
  "session_messages env sid = Inl e \<Longrightarrow> Janitor_run env st sid = (Inr (), st, [FetchMessages sid])"
  by (simp add: Janitor_run_def Janitor_run_body_def)

lemma janitor_early_return:
  assumes "session_messages env sid = Inr msgs"
      and "length msgs < 3 \<or> filter (\<lambda>i. i \<notin> set (StateManager_get st sid)) (history_ids msgs) = []"
  shows "Janitor_run env st sid = (Inr (), st, [FetchMessages sid])"
proof -
  obtain sc where sc: "scan_messages scan_init msgs = Inr sc" "toolCallIds sc = history_ids msgs"
    using scan_history by blast
  show ?thesis
  proof (cases "length msgs < 3")
    case True
    then show ?thesis
      using assms(1) by (simp add: Janitor_run_def Janitor_run_body_def)
  next
    case False
    with assms(2) have "filter (\<lambda>i. i \<notin> set (StateManager_get st sid)) (toolCallIds sc) = []"
      using sc(2) by simp
    then show ?thesis
      using assms(1) False sc(1) by (simp add: Janitor_run_def Janitor_run_body_def Let_def)
  qed
qed

lemma janitor_oracle_fails:
  assumes "session_messages env sid = Inr msgs" and "\<not> length msgs < 3"
      and "filter (\<lambda>i. i \<notin> set (StateManager_get st sid)) (history_ids msgs) \<noteq> []"
      and "generateObject env (filter (\<lambda>i. i \<notin> set (StateManager_get st sid)) (history_ids msgs)) msgs = Inl e"
  shows "Janitor_run env st sid =
           (Inr (), meanwhile env st,
            [FetchMessages sid,
             OracleCall (filter (\<lambda>i. i \<notin> set (StateManager_get st sid)) (history_ids msgs))])"
proof -
  obtain sc where sc: "scan_messages scan_init msgs = Inr sc" "toolCallIds sc = history_ids msgs"
    using scan_history by blast
  show ?thesis
    using assms sc by (simp add: Janitor_run_def Janitor_run_body_def Let_def)
qed

lemma janitor_commit:
  assumes "session_messages env sid = Inr msgs" and "\<not> length msgs < 3"
      and "filter (\<lambda>i. i \<notin> set (StateManager_get st sid)) (history_ids msgs) \<noteq> []"
      and "generateObject env (filter (\<lambda>i. i \<notin> set (StateManager_get st sid)) (history_ids msgs)) msgs
             = Inr result"
      and "scan_messages scan_init msgs = Inr sc"
      and "final = expand_ids (batchToolChildren sc) [] (pruned_tool_call_ids result)"
      and "ids = foldl set_add [] (StateManager_get st sid @ final)"
  shows "Janitor_run env st sid =
           (Inr (), StateManager_set (meanwhile env st) sid ids,
            [FetchMessages sid,
             OracleCall (filter (\<lambda>i. i \<notin> set (StateManager_get st sid)) (history_ids msgs)),
             StoreSet sid ids]
            @ (if final = [] then []
               else [ShowToast (length final) (estimatedTokensSaved (totalCharsSaved (toolOutputs sc) final))]))"
proof -
  have ids: "toolCallIds sc = history_ids msgs"
    using scan_history [of msgs] assms(5) by auto
  show ?thesis
  proof (cases "final = []")
    case True
    then show ?thesis
      using assms ids by (simp add: Janitor_run_def Janitor_run_body_def Let_def)
  next
    case False
    then show ?thesis
      using assms ids
      by (cases "showToast env (length final) (estimatedTokensSaved (totalCharsSaved (toolOutputs sc) final))")
         (simp_all add: Janitor_run_def Janitor_run_body_def Let_def)
  qed
qed

lemma janitor_returns:
  "fst (Janitor_run env st sid) = Inr ()"
  by (simp add: Janitor_run_def split: sum.splits prod.splits)

lemma ex_failing_run:
  "Janitor_run ex_env_failing Map.empty ''s'' =
     (Inr (), Map.empty, [FetchMessages ''s'', OracleCall ex_unpruned])"
proof -
  have a: "session_messages ex_env_failing ''s'' = Inr ex_history"
    by (simp add: ex_env_failing_def)
  have b: "filter (\<lambda>i. i \<notin> set (StateManager_get Map.empty ''s'')) (history_ids ex_history) = ex_unpruned"
    by (simp add: get_empty ex_unpruned_ids)
  have c: "generateObject ex_env_failing ex_unpruned ex_history = Inl SchemaError"
    by (simp add: ex_env_failing_def)
  have d: "ex_unpruned \<noteq> []" by (simp add: ex_unpruned_def)
  show ?thesis
    using janitor_oracle_fails [OF a, of Map.empty SchemaError] b c d
    by (simp add: ex_history_length ex_env_failing_def)
qed

lemma ex_run_with:
  assumes "session_messages env ''s'' = Inr ex_history"
      and "generateObject env [''b1'', ''prt_1'', ''prt_2'', ''b2'', ''prt_9''] ex_history
             = Inr \<lparr>pruned_tool_call_ids = [''b1''], reasoning = ''superseded''\<rparr>"
  shows "Janitor_run env ex_store ''s'' =
     (Inr (), StateManager_set (meanwhile env ex_store) ''s'' [''c3'', ''b1'', ''prt_1'', ''prt_2''],
      [FetchMessages ''s'', OracleCall [''b1'', ''prt_1'', ''prt_2'', ''b2'', ''prt_9''],
       StoreSet ''s'' [''c3'', ''b1'', ''prt_1'', ''prt_2''], ShowToast 3 4])"
proof -
  have g: "StateManager_get ex_store ''s'' = [''c3'']"
    by (simp add: ex_store_def get_after_set)
  have b: "filter (\<lambda>i. i \<notin> set (StateManager_get ex_store ''s'')) (history_ids ex_history)
             = [''b1'', ''prt_1'', ''prt_2'', ''b2'', ''prt_9'']"
    by (simp add: g ex_history_ids)
  have f: "[''c3'', ''b1'', ''prt_1'', ''prt_2''] =
             foldl set_add [] (StateManager_get ex_store ''s'' @ [''b1'', ''prt_1'', ''prt_2''])"
    by (simp add: g set_add_def)
  have t: "estimatedTokensSaved (totalCharsSaved
             [''b1'' \<mapsto> ''ok'', ''prt_1'' \<mapsto> ''12345678'', ''prt_2'' \<mapsto> ''1234'', ''b2'' \<mapsto> ''ok'', ''prt_9'' \<mapsto> ''xy'']
             [''b1'', ''prt_1'', ''prt_2'']) = 4"
    by (simp add: totalCharsSaved_def estimatedTokensSaved_def)
  have e: "[''b1'', ''prt_1'', ''prt_2''] =
             expand_ids (batchToolChildren
               \<lparr>toolCallIds = [''b1'', ''prt_1'', ''prt_2'', ''c3'', ''b2'', ''prt_9''],
                toolOutputs = [''b1'' \<mapsto> ''ok'', ''prt_1'' \<mapsto> ''12345678'', ''prt_2'' \<mapsto> ''1234'',
                               ''b2'' \<mapsto> ''ok'', ''prt_9'' \<mapsto> ''xy''],
                batchToolChildren = [''b1'' \<mapsto> [''prt_1'', ''prt_2''], ''b2'' \<mapsto> [''prt_9'']],
                currentBatchId = Some ''b2''\<rparr>) []
               (pruned_tool_call_ids \<lparr>pruned_tool_call_ids = [''b1''], reasoning = ''superseded''\<rparr>)"
    by (simp add: set_add_def)
  have n: "\<not> length ex_history < 3" by (simp add: ex_history_length)
  have u: "filter (\<lambda>i. i \<notin> set (StateManager_get ex_store ''s'')) (history_ids ex_history) \<noteq> []"
    by (simp add: b)
  have o: "generateObject env (filter (\<lambda>i. i \<notin> set (StateManager_get ex_store ''s''))
              (history_ids ex_history)) ex_history
             = Inr \<lparr>pruned_tool_call_ids = [''b1''], reasoning = ''superseded''\<rparr>"
    using assms(2) by (simp add: b)
  show ?thesis
    using janitor_commit [OF assms(1) n u o ex_scan e f] b t by simp
qed

lemma ex_run:
  "Janitor_run ex_env ex_store ''s'' =
     (Inr (), StateManager_set ex_store ''s'' [''c3'', ''b1'', ''prt_1'', ''prt_2''],
      [FetchMessages ''s'', OracleCall [''b1'', ''prt_1'', ''prt_2'', ''b2'', ''prt_9''],
       StoreSet ''s'' [''c3'', ''b1'', ''prt_1'', ''prt_2''], ShowToast 3 4])"
  using ex_run_with [of ex_env] by (simp add: ex_env_def)

lemma ex_run_racing:
  "Janitor_run ex_env_racing ex_store ''s'' =
     (Inr (), StateManager_set (StateManager_set ex_store ''s'' [''c3'', ''new'']) ''s''
                [''c3'', ''b1'', ''prt_1'', ''prt_2''],
      [FetchMessages ''s'', OracleCall [''b1'', ''prt_1'', ''prt_2'', ''b2'', ''prt_9''],
       StoreSet ''s'' [''c3'', ''b1'', ''prt_1'', ''prt_2''], ShowToast 3 4])"
  using ex_run_with [of ex_env_racing] by (simp add: ex_env_racing_def ex_env_def)

subsection \<open>Claims about the janitor\<close>

text \<open>
  Claim C3: \<^verbatim>\<open>Janitor.run\<close> returns normally whatever its collaborators do. When the oracle
  call that the run makes raises (a transport failure, or a result that does not match
  the schema), the run has written nothing to the store: the store after the run is
  the store before it, or what the other tasks made of it while the run was waiting, and
  so exactly the store before the run when no other task wrote.
\<close>

theorem C3_oracle_failure:
  "fst (Janitor_run env st sid) = Inr ()
   \<and> (\<forall>msgs e.
        session_messages env sid = Inr msgs
        \<and> generateObject env (filter (\<lambda>i. i \<notin> set (StateManager_get st sid)) (history_ids msgs)) msgs
            = Inl e \<longrightarrow>
        (\<forall>s ids. StoreSet s ids \<notin> set (snd (snd (Janitor_run env st sid))))
        \<and> (fst (snd (Janitor_run env st sid)) = st \<or> fst (snd (Janitor_run env st sid)) = meanwhile env st)
        \<and> (meanwhile env st = st \<longrightarrow> fst (snd (Janitor_run env st sid)) = st))"
proof -
  have main: "(\<forall>s ids. StoreSet s ids \<notin> set (snd (snd (Janitor_run env st sid))))
        \<and> (fst (snd (Janitor_run env st sid)) = st \<or> fst (snd (Janitor_run env st sid)) = meanwhile env st)
        \<and> (meanwhile env st = st \<longrightarrow> fst (snd (Janitor_run env st sid)) = st)"
    if h: "session_messages env sid = Inr msgs
        \<and> generateObject env (filter (\<lambda>i. i \<notin> set (StateManager_get st sid)) (history_ids msgs)) msgs
            = Inl e" for msgs e
  proof -
    let ?un = "filter (\<lambda>i. i \<notin> set (StateManager_get st sid)) (history_ids msgs)"
    have r: "Janitor_run env st sid = (Inr (), st, [FetchMessages sid])
           \<or> Janitor_run env st sid = (Inr (), meanwhile env st, [FetchMessages sid, OracleCall ?un])"
    proof (cases "length msgs < 3 \<or> ?un = []")
      case True
      with h show ?thesis using janitor_early_return [of env sid msgs st] by simp
    next
      case False
      with h show ?thesis using janitor_oracle_fails [of env sid msgs st e] by simp
    qed
    then show ?thesis by auto
  qed
  show ?thesis
    using janitor_returns [of env st sid] main by blast
qed

theorem C3_oracle_failure_witness:
  "generateObject ex_env_failing ex_unpruned ex_history = Inl SchemaError
   \<and> fst (Janitor_run ex_env_failing Map.empty ''s'') = Inr ()
   \<and> fst (snd (Janitor_run ex_env_failing Map.empty ''s'')) = Map.empty
   \<and> OracleCall ex_unpruned \<in> set (snd (snd (Janitor_run ex_env_failing Map.empty ''s'')))"
proof -
  have a: "session_messages ex_env_failing ''s'' = Inr ex_history"
    by (simp add: ex_env_failing_def)
  have b: "generateObject ex_env_failing
             (filter (\<lambda>i. i \<notin> set (StateManager_get Map.empty ''s'')) (history_ids ex_history)) ex_history
             = Inl SchemaError"
    by (simp add: ex_env_failing_def get_empty ex_unpruned_ids)
  have c: "meanwhile ex_env_failing Map.empty = Map.empty"
    by (simp add: ex_env_failing_def)
  have d: "generateObject ex_env_failing ex_unpruned ex_history = Inl SchemaError"
    by (simp add: ex_env_failing_def)
  have "fst (Janitor_run ex_env_failing Map.empty ''s'') = Inr ()
        \<and> fst (snd (Janitor_run ex_env_failing Map.empty ''s'')) = Map.empty"
    using C3_oracle_failure [of ex_env_failing Map.empty "''s''"] a b c by blast
  then show ?thesis
    using d by (simp add: ex_failing_run)
qed

text \<open>
  Claim C5: in a pass that reaches its commit, the expanded list holds the oracle's
  identifiers and, for each of them that is a batch parent recorded by the scan of the
  same pass, that batch's recorded children, and nothing else, each once; the list
  written to the store holds the identifiers read from the store and the expanded ones.
  When the oracle names one batch parent, the expansion is that parent and its recorded
  children, and an identifier recorded only under another batch (and not stored before)
  is not committed.
\<close>

theorem C5_batch_expansion:
  assumes "session_messages env sid = Inr msgs" and "\<not> length msgs < 3"
      and "filter (\<lambda>i. i \<notin> set (StateManager_get st sid)) (history_ids msgs) \<noteq> []"
      and "generateObject env (filter (\<lambda>i. i \<notin> set (StateManager_get st sid)) (history_ids msgs)) msgs
             = Inr result"
  shows "\<exists>sc expanded.
           scan_messages scan_init msgs = Inr sc
         \<and> expanded = expand_ids (batchToolChildren sc) [] (pruned_tool_call_ids result)
         \<and> set expanded =
             set (pruned_tool_call_ids result)
             \<union> \<Union> {set children | p children.
                     p \<in> set (pruned_tool_call_ids result) \<and> batchToolChildren sc p = Some children}
         \<and> distinct expanded
         \<and> StoreSet sid (StateManager_get (fst (snd (Janitor_run env st sid))) sid)
             \<in> set (snd (snd (Janitor_run env st sid)))
         \<and> set (StateManager_get (fst (snd (Janitor_run env st sid))) sid)
             = set (StateManager_get st sid) \<union> set expanded
         \<and> (\<forall>p children.
               pruned_tool_call_ids result = [p] \<and> batchToolChildren sc p = Some children \<longrightarrow>
               set expanded = insert p (set children)
               \<and> (\<forall>q others c.
                     q \<noteq> p \<and> batchToolChildren sc q = Some others \<and> c \<in> set others
                     \<and> c \<noteq> p \<and> c \<notin> set children \<and> c \<notin> set (StateManager_get st sid) \<longrightarrow>
                     c \<notin> set (StateManager_get (fst (snd (Janitor_run env st sid))) sid)))"
proof -
  obtain sc where sc: "scan_messages scan_init msgs = Inr sc"
    using scan_history by blast
  define expanded where "expanded = expand_ids (batchToolChildren sc) [] (pruned_tool_call_ids result)"
  define ids where "ids = foldl set_add [] (StateManager_get st sid @ expanded)"
  note run = janitor_commit [OF assms sc expanded_def ids_def]
  have after: "StateManager_get (fst (snd (Janitor_run env st sid))) sid = ids"
    by (simp add: run get_after_set)
  have ev: "StoreSet sid ids \<in> set (snd (snd (Janitor_run env st sid)))"
    by (simp add: run)
  have idset: "set ids = set (StateManager_get st sid) \<union> set expanded"
    by (simp add: ids_def set_foldl_set_add)
  have ex: "set expanded =
             set (pruned_tool_call_ids result)
             \<union> \<Union> {set children | p children.
                     p \<in> set (pruned_tool_call_ids result) \<and> batchToolChildren sc p = Some children}"
    by (simp add: expanded_def set_expand_ids)
  have dist: "distinct expanded"
  proof -
    have "distinct acc \<Longrightarrow> distinct (expand_ids bm acc xs)" for bm acc xs
    proof (induction xs arbitrary: acc)
      case Nil
      then show ?case by simp
    next
      case (Cons a xs)
      then show ?case
        by (cases "bm a") (simp_all add: distinct_foldl_set_add set_add_def)
    qed
    then show ?thesis by (simp add: expanded_def)
  qed
  have single: "set expanded = insert p (set children)
               \<and> (\<forall>q others c.
                     q \<noteq> p \<and> batchToolChildren sc q = Some others \<and> c \<in> set others
                     \<and> c \<noteq> p \<and> c \<notin> set children \<and> c \<notin> set (StateManager_get st sid) \<longrightarrow>
                     c \<notin> set (StateManager_get (fst (snd (Janitor_run env st sid))) sid))"
    if h: "pruned_tool_call_ids result = [p] \<and> batchToolChildren sc p = Some children" for p children
  proof -
    from h have "set expanded = insert p (set children)"
      by (simp add: expanded_def set_add_def set_foldl_set_add)
    then show ?thesis
      by (simp add: after idset)
  qed
  have ev': "StoreSet sid (StateManager_get (fst (snd (Janitor_run env st sid))) sid)
             \<in> set (snd (snd (Janitor_run env st sid)))"
    using ev after by simp
  have idset': "set (StateManager_get (fst (snd (Janitor_run env st sid))) sid)
             = set (StateManager_get st sid) \<union> set expanded"
    using idset after by simp
  have single': "\<forall>p children.
               pruned_tool_call_ids result = [p] \<and> batchToolChildren sc p = Some children \<longrightarrow>
               set expanded = insert p (set children)
               \<and> (\<forall>q others c.
                     q \<noteq> p \<and> batchToolChildren sc q = Some others \<and> c \<in> set others
                     \<and> c \<noteq> p \<and> c \<notin> set children \<and> c \<notin> set (StateManager_get st sid) \<longrightarrow>
                     c \<notin> set (StateManager_get (fst (snd (Janitor_run env st sid))) sid))"
    using single by blast
  have "scan_messages scan_init msgs = Inr sc
         \<and> expanded = expand_ids (batchToolChildren sc) [] (pruned_tool_call_ids result)
         \<and> set expanded =
             set (pruned_tool_call_ids result)
             \<union> \<Union> {set children | p children.
                     p \<in> set (pruned_tool_call_ids result) \<and> batchToolChildren sc p = Some children}
         \<and> distinct expanded
         \<and> StoreSet sid (StateManager_get (fst (snd (Janitor_run env st sid))) sid)
             \<in> set (snd (snd (Janitor_run env st sid)))
         \<and> set (StateManager_get (fst (snd (Janitor_run env st sid))) sid)
             = set (StateManager_get st sid) \<union> set expanded
         \<and> (\<forall>p children.
               pruned_tool_call_ids result = [p] \<and> batchToolChildren sc p = Some children \<longrightarrow>
               set expanded = insert p (set children)
               \<and> (\<forall>q others c.
                     q \<noteq> p \<and> batchToolChildren sc q = Some others \<and> c \<in> set others
                     \<and> c \<noteq> p \<and> c \<notin> set children \<and> c \<notin> set (StateManager_get st sid) \<longrightarrow>
                     c \<notin> set (StateManager_get (fst (snd (Janitor_run env st sid))) sid)))"
    using sc expanded_def ex dist ev' idset' single' by (intro conjI)
  then show ?thesis
    by (intro exI)
qed

theorem C5_batch_expansion_witness:
  "set (StateManager_get (fst (snd (Janitor_run ex_env ex_store ''s''))) ''s'')
     = {''c3'', ''b1'', ''prt_1'', ''prt_2''}
   \<and> ''prt_9'' \<notin> set (StateManager_get (fst (snd (Janitor_run ex_env ex_store ''s''))) ''s'')
   \<and> StoreSet ''s'' (StateManager_get (fst (snd (Janitor_run ex_env ex_store ''s''))) ''s'')
        \<in> set (snd (snd (Janitor_run ex_env ex_store ''s'')))"
proof -
  have g: "StateManager_get ex_store ''s'' = [''c3'']"
    by (simp add: ex_store_def get_after_set)
  have a: "session_messages ex_env ''s'' = Inr ex_history"
    by (simp add: ex_env_def)
  have b: "\<not> length ex_history < 3"
    by (simp add: ex_history_length)
  have c: "filter (\<lambda>i. i \<notin> set (StateManager_get ex_store ''s'')) (history_ids ex_history) \<noteq> []"
    by (simp add: g ex_history_ids)
  have d: "generateObject ex_env (filter (\<lambda>i. i \<notin> set (StateManager_get ex_store ''s''))
              (history_ids ex_history)) ex_history
             = Inr \<lparr>pruned_tool_call_ids = [''b1''], reasoning = ''superseded''\<rparr>"
    by (simp add: ex_env_def)
  from C5_batch_expansion [OF a b c d] obtain sc expanded where
    h: "scan_messages scan_init ex_history = Inr sc"
       "expanded = expand_ids (batchToolChildren sc) []
                     (pruned_tool_call_ids \<lparr>pruned_tool_call_ids = [''b1''], reasoning = ''superseded''\<rparr>)"
       "StoreSet ''s'' (StateManager_get (fst (snd (Janitor_run ex_env ex_store ''s''))) ''s'')
          \<in> set (snd (snd (Janitor_run ex_env ex_store ''s'')))"
       "set (StateManager_get (fst (snd (Janitor_run ex_env ex_store ''s''))) ''s'')
          = set (StateManager_get ex_store ''s'') \<union> set expanded"
    by (elim exE conjE) (rule that)
  from h(1) have bm: "batchToolChildren sc = [''b1'' \<mapsto> [''prt_1'', ''prt_2''], ''b2'' \<mapsto> [''prt_9'']]"
    by (auto simp: ex_scan)
  have "expanded = [''b1'', ''prt_1'', ''prt_2'']"
    by (simp add: h(2) bm set_add_def)
  with h(4) g have s: "set (StateManager_get (fst (snd (Janitor_run ex_env ex_store ''s''))) ''s'')
     = {''c3'', ''b1'', ''prt_1'', ''prt_2''}"
    by auto
  then have "''prt_9'' \<notin> set (StateManager_get (fst (snd (Janitor_run ex_env ex_store ''s''))) ''s'')"
    by simp
  with s h(3) show ?thesis by (intro conjI)
qed

text \<open>
  Claim C9: when the fetched history has fewer than three messages, or every tool-call
  identifier in it is already in the session's pruned list, the run returns with the
  store as it was and no event but the fetch: no oracle call, no store write, no toast.
\<close>

theorem C9_no_effect:
  assumes "session_messages env sid = Inr msgs"
      and "length msgs < 3 \<or> set (history_ids msgs) \<subseteq> set (StateManager_get st sid)"
  shows "Janitor_run env st sid = (Inr (), st, [FetchMessages sid])
         \<and> (\<forall>ev \<in> set (snd (snd (Janitor_run env st sid))). \<not> is_effect ev)"
proof -
  from assms(2) have "length msgs < 3
      \<or> filter (\<lambda>i. i \<notin> set (StateManager_get st sid)) (history_ids msgs) = []"
    by (auto simp: filter_empty_conv)
  from janitor_early_return [OF assms(1) this] show ?thesis by simp
qed

theorem C9_no_effect_witness:
  "Janitor_run ex_env ex_store_full ''s'' = (Inr (), ex_store_full, [FetchMessages ''s''])"
proof -
  have a: "session_messages ex_env ''s'' = Inr ex_history"
    by (simp add: ex_env_def)
  have b: "length ex_history < 3 \<or> set (history_ids ex_history) \<subseteq> set (StateManager_get ex_store_full ''s'')"
    by (simp add: ex_history_ids ex_store_full_def get_after_set)
  show ?thesis
    using C9_no_effect [OF a b] by simp
qed

text \<open>
  Claim C10, as stated: the list a run commits contains every identifier that \<^verbatim>\<open>get\<close>
  returned for the session before. The run merges with the list it read before it
  awaited the oracle: when another task stores \<^verbatim>\<open>"new"\<close> during that wait, \<^verbatim>\<open>get\<close> returns
  it before the commit, and the commit writes a list without it.
\<close>

theorem C10_counterexample:
  "''new'' \<in> set (StateManager_get (meanwhile ex_env_racing ex_store) ''s'')
   \<and> StoreSet ''s'' [''c3'', ''b1'', ''prt_1'', ''prt_2'']
        \<in> set (snd (snd (Janitor_run ex_env_racing ex_store ''s'')))
   \<and> ''new'' \<notin> set (StateManager_get (fst (snd (Janitor_run ex_env_racing ex_store ''s''))) ''s'')"
proof -
  have "meanwhile ex_env_racing ex_store = StateManager_set ex_store ''s'' [''c3'', ''new'']"
    by (simp add: ex_env_racing_def)
  then show ?thesis
    by (simp add: ex_run_racing get_after_set)
qed

text \<open>
  Claim C10, amended: a run that reaches its commit writes once, for its own session, the
  list whose elements are the identifiers it read from the store before the oracle call
  (line 109) together with the expanded identifiers of the oracle's result, each once;
  the list contains every identifier the store held at that read, and it is what \<^verbatim>\<open>get\<close>
  returns after the run.
\<close>

theorem C10_commit_superset:
  assumes "session_messages env sid = Inr msgs" and "\<not> length msgs < 3"
      and "filter (\<lambda>i. i \<notin> set (StateManager_get st sid)) (history_ids msgs) \<noteq> []"
      and "generateObject env (filter (\<lambda>i. i \<notin> set (StateManager_get st sid)) (history_ids msgs)) msgs
             = Inr result"
  shows "\<exists>sc ids.
           scan_messages scan_init msgs = Inr sc
         \<and> StoreSet sid ids \<in> set (snd (snd (Janitor_run env st sid)))
         \<and> (\<forall>s' ids'. StoreSet s' ids' \<in> set (snd (snd (Janitor_run env st sid))) \<longrightarrow>
                s' = sid \<and> ids' = ids)
         \<and> set ids = set (StateManager_get st sid)
                   \<union> set (expand_ids (batchToolChildren sc) [] (pruned_tool_call_ids result))
         \<and> set (StateManager_get st sid) \<subseteq> set ids
         \<and> distinct ids
         \<and> StateManager_get (fst (snd (Janitor_run env st sid))) sid = ids"
proof -
  obtain sc where sc: "scan_messages scan_init msgs = Inr sc"
    using scan_history by blast
  define ids where
    "ids = foldl set_add [] (StateManager_get st sid
             @ expand_ids (batchToolChildren sc) [] (pruned_tool_call_ids result))"
  note run = janitor_commit [OF assms sc refl ids_def]
  have after: "StateManager_get (fst (snd (Janitor_run env st sid))) sid = ids"
    by (simp add: run get_after_set)
  have ev: "StoreSet sid ids \<in> set (snd (snd (Janitor_run env st sid)))"
    by (simp add: run)
  have only: "\<forall>s' ids'. StoreSet s' ids' \<in> set (snd (snd (Janitor_run env st sid))) \<longrightarrow>
                s' = sid \<and> ids' = ids"
    by (simp add: run)
  have idset: "set ids = set (StateManager_get st sid)
                   \<union> set (expand_ids (batchToolChildren sc) [] (pruned_tool_call_ids result))"
    by (simp add: ids_def set_foldl_set_add)
  have dist: "distinct ids"
    by (simp add: ids_def distinct_foldl_set_add)
  have sub: "set (StateManager_get st sid) \<subseteq> set ids"
    using idset by simp
  have "scan_messages scan_init msgs = Inr sc
         \<and> StoreSet sid ids \<in> set (snd (snd (Janitor_run env st sid)))
         \<and> (\<forall>s' ids'. StoreSet s' ids' \<in> set (snd (snd (Janitor_run env st sid))) \<longrightarrow>
                s' = sid \<and> ids' = ids)
         \<and> set ids = set (StateManager_get st sid)
                   \<union> set (expand_ids (batchToolChildren sc) [] (pruned_tool_call_ids result))
         \<and> set (StateManager_get st sid) \<subseteq> set ids
         \<and> distinct ids
         \<and> StateManager_get (fst (snd (Janitor_run env st sid))) sid = ids"
    using sc ev only idset sub dist after by (intro conjI)
  then show ?thesis
    by (intro exI)
qed

theorem C10_commit_superset_witness:
  "StoreSet ''s'' [''c3'', ''b1'', ''prt_1'', ''prt_2'']
     \<in> set (snd (snd (Janitor_run ex_env_racing ex_store ''s'')))
   \<and> set (StateManager_get ex_store ''s'') \<subseteq> set [''c3'', ''b1'', ''prt_1'', ''prt_2'']
   \<and> StateManager_get (fst (snd (Janitor_run ex_env_racing ex_store ''s''))) ''s''
       = [''c3'', ''b1'', ''prt_1'', ''prt_2'']"
proof -
  have g: "StateManager_get ex_store ''s'' = [''c3'']"
    by (simp add: ex_store_def get_after_set)
  have a: "session_messages ex_env_racing ''s'' = Inr ex_history"
    by (simp add: ex_env_racing_def ex_env_def)
  have b: "\<not> length ex_history < 3"
    by (simp add: ex_history_length)
  have c: "filter (\<lambda>i. i \<notin> set (StateManager_get ex_store ''s'')) (history_ids ex_history) \<noteq> []"
    by (simp add: g ex_history_ids)
  have d: "generateObject ex_env_racing (filter (\<lambda>i. i \<notin> set (StateManager_get ex_store ''s''))
              (history_ids ex_history)) ex_history
             = Inr \<lparr>pruned_tool_call_ids = [''b1''], reasoning = ''superseded''\<rparr>"
    by (simp add: ex_env_racing_def ex_env_def)
  from C10_commit_superset [OF a b c d] obtain ids where
    h: "StoreSet ''s'' ids \<in> set (snd (snd (Janitor_run ex_env_racing ex_store ''s'')))"
       "set (StateManager_get ex_store ''s'') \<subseteq> set ids"
       "StateManager_get (fst (snd (Janitor_run ex_env_racing ex_store ''s''))) ''s'' = ids"
    by blast
  have "StateManager_get (fst (snd (Janitor_run ex_env_racing ex_store ''s''))) ''s''
          = [''c3'', ''b1'', ''prt_1'', ''prt_2'']"
    by (simp add: ex_run_racing get_after_set)
  with h show ?thesis by simp
qed


end
